theory Spec2Isabelle
  imports Complex_Main "HOL-Library.Stream"
begin

section \<open>JavaScript strings and the built-ins the code calls\<close>

text \<open>
  A JavaScript string is modelled as a \<^typ>\<open>string\<close>, a list of 8-bit characters: the
  model covers strings whose code units are below 256. An optional argument
  (\<^verbatim>\<open>eventName?: string\<close>) is a \<^typ>\<open>string option\<close>, \<^term>\<open>None\<close> being
  \<^verbatim>\<open>undefined\<close>.
\<close>

definition upper_letters :: string where
  "upper_letters = ''ABCDEFGHIJKLMNOPQRSTUVWXYZ''"

definition lower_letters :: string where
  "lower_letters = ''abcdefghijklmnopqrstuvwxyz''"

definition digits :: string where
  "digits = ''0123456789''"

text \<open>
  \<^verbatim>\<open>String.prototype.toLowerCase\<close>: \<^verbatim>\<open>A\<close> to \<^verbatim>\<open>Z\<close> become \<^verbatim>\<open>a\<close> to \<^verbatim>\<open>z\<close>. The
  other characters are left alone; of the code units below 256, the ones JavaScript would
  change (the accented capitals) stay outside \<^verbatim>\<open>[a-z0-9]\<close> either way.
\<close>

definition toLowerCase_char :: "char \<Rightarrow> char" where
  "toLowerCase_char c =
     (case map_of (zip upper_letters lower_letters) c of Some l \<Rightarrow> l | None \<Rightarrow> c)"

definition toLowerCase :: "string \<Rightarrow> string" where
  "toLowerCase s = map toLowerCase_char s"

text \<open>The character class \<^verbatim>\<open>[a-z0-9]\<close>.\<close>

definition is_lower_alnum :: "char \<Rightarrow> bool" where
  "is_lower_alnum c = (c \<in> set lower_letters \<or> c \<in> set digits)"

text \<open>\<^verbatim>\<open>s.replace(/[^a-z0-9]/g, '')\<close>: every character outside the class is deleted.\<close>

definition replace_non_alnum :: "string \<Rightarrow> string" where
  "replace_non_alnum s = filter is_lower_alnum s"

text \<open>\<^verbatim>\<open>s.substring(0, n)\<close> for \<open>n\<close> a non-negative literal.\<close>

definition substring0 :: "nat \<Rightarrow> string \<Rightarrow> string" where
  "substring0 n s = take n s"

text \<open>
  \<^verbatim>\<open>s.charAt(i)\<close>: the one-character string at index \<open>i\<close>, and the empty string when
  \<open>i\<close> is out of range.
\<close>

definition charAt :: "string \<Rightarrow> int \<Rightarrow> string" where
  "charAt s i = (if 0 \<le> i \<and> i < int (length s) then [s ! nat i] else [])"

text \<open>Truthiness of an optional string: \<^verbatim>\<open>undefined\<close> and \<^verbatim>\<open>''\<close> are falsy.\<close>

definition truthy :: "string option \<Rightarrow> bool" where
  "truthy x = (case x of None \<Rightarrow> False | Some s \<Rightarrow> s \<noteq> [])"

section \<open>Numbers\<close>

text \<open>
  The numbers of JavaScript are IEEE doubles. A double that is not negative is a pair
  of a mantissa below \<open>2 ^ 53\<close> and an exponent, and stands for the mantissa times 2 to
  the exponent. Products and differences are rounded to the nearest double, a tie going
  to the double whose mantissa is even.
\<close>

datatype double = Double (mantissa: nat) (exponent: int)

definition double_value :: "double \<Rightarrow> real" where
  "double_value d = real (mantissa d) * 2 powr real_of_int (exponent d)"

text \<open>
  The number of low bits that a natural number loses when it is cut to 53 bits, and the
  number cut by \<open>s\<close> bits: the quotient by \<open>2 ^ s\<close>, rounded to the nearest, a tie
  going to the even neighbour.
\<close>

fun round_shift :: "nat \<Rightarrow> nat" where
  "round_shift M = (if M < 2 ^ 53 then 0 else Suc (round_shift (M div 2)))"

declare round_shift.simps [simp del]

definition round_half_even :: "nat \<Rightarrow> nat \<Rightarrow> nat" where
  "round_half_even M s =
     (if s = 0 then M
      else (let q = M div 2 ^ s; r = M mod 2 ^ s; half = 2 ^ (s - 1)
            in if half < r \<or> (r = half \<and> odd q) then q + 1 else q))"

text \<open>
  \<^verbatim>\<open>d * n\<close> for a double \<open>d\<close> and a natural number \<open>n\<close> that is a double itself
  (below \<open>2 ^ 53\<close>): the exact product has the mantissa \<open>mantissa d * n\<close>, which is cut
  to 53 bits.
\<close>

definition double_times :: "double \<Rightarrow> nat \<Rightarrow> double" where
  "double_times d n =
     (let M = mantissa d * n; s = round_shift M
      in Double (round_half_even M s) (exponent d + int s))"

text \<open>\<^verbatim>\<open>Math.floor(d)\<close>.\<close>

definition Math_floor :: "double \<Rightarrow> int" where
  "Math_floor d =
     (if 0 \<le> exponent d then int (mantissa d * 2 ^ nat (exponent d))
      else int (mantissa d div 2 ^ nat (- exponent d)))"

text \<open>
  The double nearest to an integer: the result of an addition or a subtraction of two
  doubles that are integers, given its exact value.
\<close>

definition to_double :: "int \<Rightarrow> int" where
  "to_double i =
     (let M = nat \<bar>i\<bar>; s = round_shift M in sgn i * int (round_half_even M s * 2 ^ s))"

section \<open>Math.random\<close>

text \<open>
  The pseudo-random generator is the stream of the doubles that the coming calls of
  \<^verbatim>\<open>Math.random()\<close> return. A call takes the head and leaves the tail. ECMAScript
  promises a value that is at least 0 and less than 1: \<open>unit_double d\<close> says that
  \<open>d\<close> is a double whose value is less than 1, and \<open>valid_random\<close> says so of every
  value of a stream.
\<close>

type_synonym rng = "double stream"

definition unit_double :: "double \<Rightarrow> bool" where
  "unit_double d =
     (mantissa d < 2 ^ 53
      \<and> (mantissa d = 0 \<or> (exponent d < 0 \<and> mantissa d < 2 ^ nat (- exponent d))))"

definition valid_random :: "rng \<Rightarrow> bool" where
  "valid_random rs = (\<forall>d \<in> sset rs. unit_double d)"

section \<open>generateShortCode\<close>

definition characters :: string where
  "characters = ''23456789abcdefghjkmnpqrstuvwxyz''"

definition targetLength :: nat where
  "targetLength = 7"

text \<open>
  The value of \<^verbatim>\<open>result\<close> when the \<^verbatim>\<open>while\<close> loop is reached: the prefix taken from
  the event name when it has at least two characters, the empty string otherwise.
\<close>

definition seed_prefix :: "string option \<Rightarrow> string" where
  "seed_prefix eventName =
     (if truthy eventName then
        (let prefix = substring0 3 (replace_non_alnum (toLowerCase (the eventName)))
         in if length prefix \<ge> 2 then prefix else [])
      else [])"

text \<open>
  The loop \<^verbatim>\<open>while (result.length < targetLength) result += characters.charAt(...)\<close>.
  It makes no progress when \<^verbatim>\<open>charAt\<close> returns the empty string, so it is a partial
  function: \<^term>\<open>None\<close> is the loop that does not return.
\<close>

partial_function (option) fill_random :: "string \<Rightarrow> rng \<Rightarrow> (string \<times> rng) option" where
  "fill_random result rs =
     (if length result < targetLength then
        fill_random
          (result @ charAt characters (Math_floor (double_times (shd rs) (length characters))))
          (stl rs)
      else Some (result, rs))"

definition generateShortCode :: "string option \<Rightarrow> rng \<Rightarrow> (string \<times> rng) option" where
  "generateShortCode eventName rs = fill_random (seed_prefix eventName) rs"

text \<open>
  What a code made of random characters only looks like: \<open>random_char d\<close> is the
  character of the alphabet that the draw \<open>d\<close> selects.
\<close>

definition random_char :: "double \<Rightarrow> char" where
  "random_char d = characters ! nat (Math_floor (double_times d (length characters)))"

section \<open>The remote store\<close>

text \<open>
  A query of the hosted database answers with an object \<^verbatim>\<open>{ data, error }\<close>; either
  part may be \<^verbatim>\<open>null\<close>. The store is an external collaborator: each query is a
  function of an arbitrary state \<open>'w\<close> of the outside world that returns the answer and
  the next state, so nothing is assumed about what it answers.
\<close>

record pg_error =
  err_code :: string
  err_message :: string

record 'a response =
  resp_data :: "'a option"
  resp_error :: "pg_error option"

text \<open>
  \<^verbatim>\<open>supabase.from('events').select('id').eq('short_code', shortCode).single()\<close>:
  from the state and the code looked up to the answer (the row's id) and the next state.
\<close>

type_synonym 'w code_lookup = "'w \<Rightarrow> string \<Rightarrow> string response \<times> 'w"

section \<open>generateUniqueShortCode\<close>

definition maxAttempts :: nat where
  "maxAttempts = 10"

text \<open>The test \<^verbatim>\<open>error && error.code === 'PGRST116'\<close>.\<close>

definition no_match_found :: "'a response \<Rightarrow> bool" where
  "no_match_found r =
     (case resp_error r of None \<Rightarrow> False | Some e \<Rightarrow> err_code e = ''PGRST116'')"

text \<open>
  The \<^verbatim>\<open>while (attempts < maxAttempts)\<close> loop and the fallback after it. The result
  is the code returned, the codes that were looked up (oldest first, \<open>lookups\<close> holding
  the ones of the earlier iterations), the state of the outside world and the random
  generator afterwards. \<^term>\<open>None\<close> is a call of \<open>generateShortCode\<close> that does not
  return.
\<close>

function attempt_loop ::
  "'w code_lookup \<Rightarrow> string option \<Rightarrow> nat \<Rightarrow> string list \<Rightarrow> 'w \<Rightarrow> rng
     \<Rightarrow> (string \<times> string list \<times> 'w \<times> rng) option" where
  "attempt_loop lookup eventName attempts lookups w rs =
     (if attempts < maxAttempts then
        (case generateShortCode eventName rs of
           None \<Rightarrow> None
         | Some (shortCode, rs1) \<Rightarrow>
             (case lookup w shortCode of
                (r, w1) \<Rightarrow>
                  if no_match_found r then Some (shortCode, lookups @ [shortCode], w1, rs1)
                  else attempt_loop lookup eventName (attempts + 1)
                         (lookups @ [shortCode]) w1 rs1))
      else
        (case generateShortCode None rs of
           None \<Rightarrow> None
         | Some (shortCode, rs1) \<Rightarrow> Some (shortCode, lookups, w, rs1)))"
  by pat_completeness auto
termination
  by (relation "measure (\<lambda>(lookup, eventName, attempts, lookups, w, rs). maxAttempts - attempts)")
     auto

declare attempt_loop.simps [simp del]

definition generateUniqueShortCode ::
  "'w code_lookup \<Rightarrow> string option \<Rightarrow> 'w \<Rightarrow> rng
     \<Rightarrow> (string \<times> string list \<times> 'w \<times> rng) option" where
  "generateUniqueShortCode lookup eventName w rs = attempt_loop lookup eventName 0 [] w rs"

text \<open>
  For comparison with the loop: \<open>run_attempts lookup eventName n w rs\<close> generates a
  code from the seed and looks it up, \<open>n\<close> times in a row, whatever the answers are.
  It returns each code with the answer it got, and the state and the generator after the
  last lookup.
\<close>

fun run_attempts ::
  "'w code_lookup \<Rightarrow> string option \<Rightarrow> nat \<Rightarrow> 'w \<Rightarrow> rng
     \<Rightarrow> ((string \<times> string response) list \<times> 'w \<times> rng) option" where
  "run_attempts lookup eventName 0 w rs = Some ([], w, rs)"
| "run_attempts lookup eventName (Suc n) w rs =
     (case generateShortCode eventName rs of
        None \<Rightarrow> None
      | Some (shortCode, rs1) \<Rightarrow>
          (case lookup w shortCode of
             (r, w1) \<Rightarrow>
               (case run_attempts lookup eventName n w1 rs1 of
                  None \<Rightarrow> None
                | Some (rest, w2, rs2) \<Rightarrow> Some ((shortCode, r) # rest, w2, rs2))))"

section \<open>Shareable URLs\<close>

text \<open>
  \<open>window_origin\<close> is \<^verbatim>\<open>window.location.origin\<close>, and \<^term>\<open>None\<close> where
  \<^verbatim>\<open>window\<close> is undefined (on the server).
\<close>

definition createShareableEventURL :: "string option \<Rightarrow> string \<Rightarrow> string option \<Rightarrow> string" where
  "createShareableEventURL window_origin shortCode baseUrl =
     (let base =
        (if truthy baseUrl then the baseUrl
         else (case window_origin of
                 Some origin \<Rightarrow> origin
               | None \<Rightarrow> ''https://polkarena.montaq.org''))
      in base @ ''/e/'' @ shortCode)"

text \<open>The class \<^verbatim>\<open>[a-z0-9]\<close> under the flag \<^verbatim>\<open>i\<close>: letters of either case, and digits.\<close>

definition is_alnum_ci :: "char \<Rightarrow> bool" where
  "is_alnum_ci c = (c \<in> set lower_letters \<or> c \<in> set upper_letters \<or> c \<in> set digits)"

text \<open>
  A match of \<^verbatim>\<open>/\/e\/([a-z0-9]+)/i\<close> that starts at the first character of the
  string: the value of the group, which is greedy, or \<^term>\<open>None\<close>.
\<close>

fun match_here :: "string \<Rightarrow> string option" where
  "match_here (c1 # c2 # c3 # rest) =
     (if c1 = CHR ''/'' \<and> (c2 = CHR ''e'' \<or> c2 = CHR ''E'') \<and> c3 = CHR ''/''
         \<and> takeWhile is_alnum_ci rest \<noteq> []
      then Some (takeWhile is_alnum_ci rest) else None)"
| "match_here _ = None"

text \<open>\<^verbatim>\<open>url.match(...)\<close> without the flag \<^verbatim>\<open>g\<close>: the leftmost match.\<close>

fun first_match :: "string \<Rightarrow> string option" where
  "first_match [] = None"
| "first_match (c # cs) =
     (case match_here (c # cs) of Some g \<Rightarrow> Some g | None \<Rightarrow> first_match cs)"

definition extractShortCodeFromURL :: "string \<Rightarrow> string option" where
  "extractShortCodeFromURL url = first_match url"

section \<open>formatEventDuration\<close>

text \<open>
  \<^verbatim>\<open>new Date(s).getTime()\<close> is a parameter, \<open>Date_parse\<close>, of every function that
  parses a date: \<^term>\<open>None\<close> is the invalid date, whose time is \<^verbatim>\<open>NaN\<close>, and the
  time of a valid date is an integer of milliseconds between \<open>- 8640000000000000\<close> and
  \<open>8640000000000000\<close>, which is a double. The difference of two such times is rounded to
  a double (\<open>to_double\<close>; it is exact up to \<open>2 ^ 53\<close>). The quotients by 60000 and
  by 60 are rounded too before \<^verbatim>\<open>Math.floor\<close>, but the floor of the rounded quotient is
  the floor of the exact one: a quotient that is not an integer lies at least
  \<open>1 / 60000\<close> below the next integer (\<open>2 / 60000\<close> when the dividend is beyond
  \<open>2 ^ 53\<close>, where it is even), which is more than half the gap between the doubles
  there (the gap is at most \<open>1 / 2 ^ 15\<close> for a quotient below \<open>2 ^ 38\<close> and
  \<open>1 / 2 ^ 14\<close> below \<open>2 ^ 39\<close>), so it is never rounded up to that integer. The
  remainder is exact.
\<close>

text \<open>A number in a template literal: an integer in decimal digits.\<close>

fun nat_toString :: "nat \<Rightarrow> string" where
  "nat_toString n =
     (if 10 \<le> n then nat_toString (n div 10) @ [digits ! (n mod 10)] else [digits ! n])"

declare nat_toString.simps [simp del]

definition number_toString :: "int \<Rightarrow> string" where
  "number_toString i =
     (if 0 \<le> i then nat_toString (nat i) else CHR ''-'' # nat_toString (nat (- i)))"

text \<open>The operator \<^verbatim>\<open>%\<close>: the remainder has the sign of the dividend.\<close>

definition js_rem :: "int \<Rightarrow> int \<Rightarrow> int" where
  "js_rem a b = sgn a * (\<bar>a\<bar> mod \<bar>b\<bar>)"

definition formatEventDuration :: "(string \<Rightarrow> int option) \<Rightarrow> string \<Rightarrow> string \<Rightarrow> string" where
  "formatEventDuration Date_parse startTime endTime =
     (case (Date_parse startTime, Date_parse endTime) of
        (Some start, Some end) \<Rightarrow>
          (let durationMs = to_double (end - start);
               totalMinutes = durationMs div (1000 * 60);
               hours = totalMinutes div 60;
               minutes = js_rem totalMinutes 60
           in if hours = 0 then
                number_toString minutes @ '' minute'' @ (if minutes \<noteq> 1 then ''s'' else [])
              else if minutes = 0 then
                number_toString hours @ '' hour'' @ (if hours \<noteq> 1 then ''s'' else [])
              else
                number_toString hours @ '' hour'' @ (if hours \<noteq> 1 then ''s'' else [])
                  @ '' '' @ number_toString minutes @ '' minute''
                  @ (if minutes \<noteq> 1 then ''s'' else []))
      | _ \<Rightarrow> ''NaN hours NaN minutes'')"

section \<open>The event creation page\<close>

subsection \<open>State of the form\<close>

record form_data =
  fd_name :: string
  fd_description :: string
  fd_start_time :: string
  fd_end_time :: string
  fd_location :: string
  fd_is_online :: bool
  fd_participant_limit :: string
  fd_tags :: string
  fd_registration_deadline :: string
  fd_website_url :: string
  fd_discord_url :: string
  fd_twitter_url :: string
  fd_requirements :: string
  fd_banner_image_url :: string

record custom_field =
  cf_id :: string
  cf_name :: string
  cf_type :: string
  cf_required :: bool
  cf_options :: "string list option"

text \<open>\<open>addCustomField\<close>; \<open>now\<close> is the value of \<^verbatim>\<open>Date.now()\<close>.\<close>

definition addCustomField :: "int \<Rightarrow> custom_field list \<Rightarrow> custom_field list" where
  "addCustomField now customFields =
     customFields @
       [\<lparr>cf_id = number_toString now, cf_name = [], cf_type = ''text'', cf_required = False,
         cf_options = Some []\<rparr>]"

subsection \<open>More built-ins\<close>

text \<open>\<^verbatim>\<open>s.split(sep)\<close> for a separator of one character.\<close>

fun split_on :: "char \<Rightarrow> string \<Rightarrow> string list" where
  "split_on sep [] = [[]]"
| "split_on sep (c # cs) =
     (if c = sep then [] # split_on sep cs
      else (case split_on sep cs of
              p # ps \<Rightarrow> (c # p) # ps
            | [] \<Rightarrow> [[c]]))"

text \<open>
  \<^verbatim>\<open>s.trim()\<close>. Of the code units below 256, the white space and line terminators of
  JavaScript are tab, line feed, vertical tab, form feed, carriage return, space and the
  no-break space.
\<close>

definition is_white_space :: "char \<Rightarrow> bool" where
  "is_white_space c =
     (c \<in> set [CHR 0x09, CHR 0x0A, CHR 0x0B, CHR 0x0C, CHR 0x0D, CHR 0x20, CHR 0xA0])"

definition trim :: "string \<Rightarrow> string" where
  "trim s = rev (dropWhile is_white_space (rev (dropWhile is_white_space s)))"

text \<open>\<^verbatim>\<open>s || null\<close> for a string \<open>s\<close>.\<close>

definition or_null :: "string \<Rightarrow> string option" where
  "or_null s = (if s = [] then None else Some s)"

text \<open>A JavaScript number that \<^verbatim>\<open>parseInt\<close> returns.\<close>

datatype js_number = NaN | Number int

text \<open>
  The functions of the platform that the page calls and that are not modelled further:
  \<^verbatim>\<open>new Date(s).getTime()\<close> (\<^term>\<open>None\<close> for \<^verbatim>\<open>NaN\<close>),
  \<^verbatim>\<open>toISOString()\<close> of a valid date, and \<^verbatim>\<open>parseInt\<close>.
\<close>

record platform =
  pf_Date_parse :: "string \<Rightarrow> int option"
  pf_toISOString :: "int \<Rightarrow> string"
  pf_parseInt :: "string \<Rightarrow> js_number"

subsection \<open>The record sent to the store\<close>

record user =
  user_id :: string
  user_email :: "string option"

record user_row =
  row_name :: "string option"

record event_data =
  ev_name :: string
  ev_description :: string
  ev_start_time :: string
  ev_end_time :: string
  ev_organizer_id :: string
  ev_organizer_name :: string
  ev_location :: "string option"
  ev_is_online :: bool
  ev_participant_limit :: "js_number option"
  ev_tags :: "string list option"
  ev_custom_fields :: "custom_field list option"
  ev_registration_deadline :: "string option"
  ev_website_url :: "string option"
  ev_discord_url :: "string option"
  ev_twitter_url :: "string option"
  ev_requirements :: "string option"
  ev_banner_image_url :: "string option"
  ev_short_code :: string

text \<open>The object literal \<^verbatim>\<open>eventData\<close>; an absent value is \<^verbatim>\<open>null\<close>.\<close>

definition eventData ::
  "platform \<Rightarrow> form_data \<Rightarrow> custom_field list \<Rightarrow> user \<Rightarrow> user_row option
     \<Rightarrow> int \<Rightarrow> int \<Rightarrow> int option \<Rightarrow> string list \<Rightarrow> string \<Rightarrow> event_data" where
  "eventData pf formData customFields u userProfile startTime endTime registrationDeadline
       tagsArray shortCode =
     \<lparr>ev_name = fd_name formData,
      ev_description = fd_description formData,
      ev_start_time = pf_toISOString pf startTime,
      ev_end_time = pf_toISOString pf endTime,
      ev_organizer_id = user_id u,
      ev_organizer_name =
        (let profile_name = (case userProfile of None \<Rightarrow> None | Some row \<Rightarrow> row_name row)
         in if truthy profile_name then the profile_name
            else if truthy (user_email u) then the (user_email u)
            else ''Anonymous''),
      ev_location = or_null (fd_location formData),
      ev_is_online = fd_is_online formData,
      ev_participant_limit =
        (if fd_participant_limit formData \<noteq> []
         then Some (pf_parseInt pf (fd_participant_limit formData)) else None),
      ev_tags = (if length tagsArray > 0 then Some tagsArray else None),
      ev_custom_fields = (if length customFields > 0 then Some customFields else None),
      ev_registration_deadline =
        (case registrationDeadline of
           None \<Rightarrow> None
         | Some d \<Rightarrow> or_null (pf_toISOString pf d)),
      ev_website_url = or_null (fd_website_url formData),
      ev_discord_url = or_null (fd_discord_url formData),
      ev_twitter_url = or_null (fd_twitter_url formData),
      ev_requirements = or_null (fd_requirements formData),
      ev_banner_image_url = or_null (fd_banner_image_url formData),
      ev_short_code = shortCode\<rparr>"

subsection \<open>handleSubmit\<close>

text \<open>
  The three queries the page sends, each a function of the state of the outside world:
  the lookup of a short code, the lookup of the organizer's profile
  (\<^verbatim>\<open>from("users").select("name").eq("id", user.id).single()\<close>) and the insert
  (\<^verbatim>\<open>from("events").insert(eventData).select().single()\<close>, answering with the id
  of the new row).
\<close>

record 'w supabase =
  select_event_id :: "'w code_lookup"
  select_user_name :: "'w \<Rightarrow> string \<Rightarrow> user_row response \<times> 'w"
  insert_event :: "'w \<Rightarrow> event_data \<Rightarrow> string response \<times> 'w"

datatype call = SelectUserName string | SelectEventId string | InsertEvent event_data

datatype toast = ToastError string | ToastSuccess string

text \<open>
  What a run of \<open>handleSubmit\<close> leaves behind: the messages shown, the page it
  navigated to, the queries it sent (oldest first), the state of the outside world and
  the random generator.
\<close>

record 'w submit_result =
  out_toasts :: "toast list"
  out_push :: "string option"
  out_calls :: "call list"
  out_world :: 'w
  out_rng :: rng

text \<open>
  The block that validates the registration deadline: \<open>Inl\<close> carries the message of
  \<^verbatim>\<open>toast.error\<close> on the paths that return, \<open>Inr\<close> the value of
  \<^verbatim>\<open>registrationDeadline\<close> on the path that goes on.
\<close>

definition check_deadline :: "platform \<Rightarrow> int \<Rightarrow> int \<Rightarrow> form_data \<Rightarrow> string + int option" where
  "check_deadline pf now startTime formData =
     (if fd_registration_deadline formData \<noteq> [] then
        (case pf_Date_parse pf (fd_registration_deadline formData) of
           None \<Rightarrow> Inl ''Please enter a valid registration deadline''
         | Some registrationDeadline \<Rightarrow>
             if registrationDeadline \<ge> startTime then
               Inl ''Registration deadline must be before start time''
             else if registrationDeadline < now then
               Inl ''Registration deadline cannot be in the past''
             else Inr (Some registrationDeadline))
      else Inr None)"

text \<open>
  The part of \<open>handleSubmit\<close> from the required fields to the registration deadline;
  \<open>now\<close> is the time of \<^verbatim>\<open>new Date()\<close>. \<open>Inl\<close> carries the message shown on a
  path that ends the submission, \<open>Inr\<close> the times of start, end and deadline.
  The \<^verbatim>\<open>console.log\<close> of the parsed dates calls \<^verbatim>\<open>toISOString()\<close> on the start
  and the end before they are checked; on an invalid date that raises a
  \<^verbatim>\<open>RangeError\<close>, and the \<^verbatim>\<open>catch\<close> block shows its own message. The check for
  invalid dates comes after it.
\<close>

definition validate_form :: "platform \<Rightarrow> int \<Rightarrow> form_data \<Rightarrow> string + (int \<times> int \<times> int option)" where
  "validate_form pf now formData =
     (if fd_name formData = [] \<or> fd_description formData = []
         \<or> fd_start_time formData = [] \<or> fd_end_time formData = []
      then Inl ''Please fill in all required fields''
      else
        (let startTime = pf_Date_parse pf (fd_start_time formData);
             endTime = pf_Date_parse pf (fd_end_time formData)
         in if startTime = None \<or> endTime = None then Inl ''Failed to create event''
            else if startTime = None \<or> endTime = None then
              Inl ''Please enter valid start and end times''
            else if the startTime < now then Inl ''Start time cannot be in the past''
            else if the endTime \<le> the startTime then Inl ''End time must be after start time''
            else
              (case check_deadline pf now (the startTime) formData of
                 Inl msg \<Rightarrow> Inl msg
               | Inr registrationDeadline \<Rightarrow>
                   Inr (the startTime, the endTime, registrationDeadline))))"

text \<open>
  The value of \<^verbatim>\<open>tagsArray\<close>:
  \<^verbatim>\<open>formData.tags.split(",").map((tag) => tag.trim()).filter((tag) => tag.length > 0)\<close>.
\<close>

definition tags_of :: "string \<Rightarrow> string list" where
  "tags_of tags = filter (\<lambda>tag. length tag > 0) (map trim (split_on CHR '','' tags))"

text \<open>
  \<open>handleSubmit\<close>, with the signed-in user (\<^term>\<open>None\<close> for \<^verbatim>\<open>null\<close>), the
  form and the custom fields as the page holds them. \<^term>\<open>None\<close> is a run that does
  not return, because \<open>generateShortCode\<close> does not. After the insert: an error is
  shown with its message; without an error the success message is shown and
  \<^verbatim>\<open>data.id\<close> is read, which raises when \<^verbatim>\<open>data\<close> is \<^verbatim>\<open>null\<close>.
\<close>

definition handleSubmit ::
  "platform \<Rightarrow> 'w supabase \<Rightarrow> user option \<Rightarrow> int \<Rightarrow> form_data \<Rightarrow> custom_field list
     \<Rightarrow> 'w \<Rightarrow> rng \<Rightarrow> 'w submit_result option" where
  "handleSubmit pf sb current_user now formData customFields w rs =
     (case current_user of
        None \<Rightarrow>
          Some \<lparr>out_toasts = [], out_push = None, out_calls = [], out_world = w, out_rng = rs\<rparr>
      | Some u \<Rightarrow>
          (case validate_form pf now formData of
             Inl msg \<Rightarrow>
               Some \<lparr>out_toasts = [ToastError msg], out_push = None, out_calls = [],
                     out_world = w, out_rng = rs\<rparr>
           | Inr (startTime, endTime, registrationDeadline) \<Rightarrow>
               (let tagsArray = tags_of (fd_tags formData)
                in case select_user_name sb w (user_id u) of
                     (profile, w1) \<Rightarrow>
                  (case generateUniqueShortCode (select_event_id sb) (Some (fd_name formData)) w1 rs of
                     None \<Rightarrow> None
                   | Some (shortCode, lookups, w2, rs2) \<Rightarrow>
                       (let ev = eventData pf formData customFields u (resp_data profile)
                                   startTime endTime registrationDeadline tagsArray shortCode;
                            sent = SelectUserName (user_id u) # map SelectEventId lookups
                                     @ [InsertEvent ev]
                        in case insert_event sb w2 ev of
                             (ins, w3) \<Rightarrow>
                          Some
                            (case resp_error ins of
                               Some e \<Rightarrow>
                                 \<lparr>out_toasts =
                                    [ToastError (''Failed to create event: '' @ err_message e)],
                                  out_push = None, out_calls = sent, out_world = w3,
                                  out_rng = rs2\<rparr>
                             | None \<Rightarrow>
                                 (case resp_data ins of
                                    Some new_id \<Rightarrow>
                                      \<lparr>out_toasts = [ToastSuccess ''Event created successfully!''],
                                       out_push = Some (''/events/'' @ new_id),
                                       out_calls = sent, out_world = w3, out_rng = rs2\<rparr>
                                  | None \<Rightarrow>
                                      \<lparr>out_toasts =
                                         [ToastSuccess ''Event created successfully!'',
                                          ToastError ''Failed to create event''],
                                       out_push = None, out_calls = sent, out_world = w3,
                                       out_rng = rs2\<rparr>)))))))"

text \<open>
  A run that ends on \<^verbatim>\<open>toast.error(msg)\<close> with no query sent: nothing else is
  shown, the page does not navigate, and the outside world and the random generator are
  as they were.
\<close>

definition rejected :: "string \<Rightarrow> 'w \<Rightarrow> rng \<Rightarrow> 'w submit_result" where
  "rejected msg w rs =
     \<lparr>out_toasts = [ToastError msg], out_push = None, out_calls = [], out_world = w,
      out_rng = rs\<rparr>"

section \<open>Concrete inputs\<close>

text \<open>
  Answers of the store and lookups used to run the functions on concrete inputs. The
  state of these lookups is the number of lookups answered so far.
\<close>

definition answer_no_rows :: "string response" where
  "answer_no_rows =
     \<lparr>resp_data = None,
      resp_error = Some \<lparr>err_code = ''PGRST116'', err_message = ''no rows returned''\<rparr>\<rparr>"

definition answer_row :: "string response" where
  "answer_row = \<lparr>resp_data = Some ''41'', resp_error = None\<rparr>"

definition answer_failure :: "string response" where
  "answer_failure =
     \<lparr>resp_data = None,
      resp_error = Some \<lparr>err_code = ''08006'', err_message = ''connection failure''\<rparr>\<rparr>"

definition free_on_third :: "nat code_lookup" where
  "free_on_third w c =
     (if w = 0 then answer_failure else if w = 1 then answer_row else answer_no_rows, w + 1)"

definition always_taken :: "nat code_lookup" where
  "always_taken w c = (answer_row, w + 1)"

text \<open>
  Random generators: one that returns 0 for ever, one that returns 0, \<open>1 / 2\<close> and
  \<open>5 / 16\<close> in turn, and one that returns \<open>1162219258676257 / 2 ^ 52\<close> for ever, a
  draw whose product with 31 is rounded up to 8.
\<close>

definition zeros :: rng where
  "zeros = sconst (Double 0 0)"

definition three_draws :: rng where
  "three_draws = cycle [Double 0 0, Double 2 (- 2), Double 5 (- 4)]"

definition rounded_draws :: rng where
  "rounded_draws = sconst (Double 1162219258676257 (- 52))"

text \<open>
  A \<open>Date_parse\<close> that knows six times of one morning, in milliseconds since the epoch,
  and takes every other string for an invalid date.
\<close>

definition morning :: "string \<Rightarrow> int option" where
  "morning =
     map_of
       [(''2030-01-01T10:00'', 1893492000000),
        (''2030-01-01T10:01'', 1893492060000),
        (''2030-01-01T10:45'', 1893494700000),
        (''2030-01-01T11:00'', 1893495600000),
        (''2030-01-01T11:01'', 1893495660000),
        (''2030-01-01T11:30'', 1893497400000)]"

text \<open>
  A \<open>Date_parse\<close> that knows the first time but one and the last time that a date can
  have.
\<close>

definition extremes :: "string \<Rightarrow> int option" where
  "extremes =
     map_of
       [(''-271821-04-20T00:00:00.001Z'', - 8639999999999999),
        (''+275760-09-13T00:00:00.000Z'', 8640000000000000)]"

text \<open>
  A platform for the six times of \<open>morning\<close>, a store whose state counts the queries
  answered, a user and a form.
\<close>

definition morning_iso :: "int \<Rightarrow> string" where
  "morning_iso t =
     (case map_of
             [(1893492000000, ''2030-01-01T10:00:00.000Z''),
              (1893495600000, ''2030-01-01T11:00:00.000Z''),
              (1893497400000, ''2030-01-01T11:30:00.000Z'')] t of
        Some s \<Rightarrow> s
      | None \<Rightarrow> ''1970-01-01T00:00:00.000Z'')"

definition fifty :: "string \<Rightarrow> js_number" where
  "fifty s = (if s = ''50'' then Number 50 else NaN)"

definition test_platform :: platform where
  "test_platform = \<lparr>pf_Date_parse = morning, pf_toISOString = morning_iso, pf_parseInt = fifty\<rparr>"

definition test_store :: "nat supabase" where
  "test_store =
     \<lparr>select_event_id = free_on_third,
      select_user_name =
        (\<lambda>w uid. (\<lparr>resp_data = Some \<lparr>row_name = Some ''Ada''\<rparr>, resp_error = None\<rparr>, w + 1)),
      insert_event = (\<lambda>w ev. (\<lparr>resp_data = Some ''77'', resp_error = None\<rparr>, w + 1))\<rparr>"

definition ada :: user where
  "ada = \<lparr>user_id = ''u1'', user_email = Some ''ada@example.org''\<rparr>"

definition early :: int where
  "early = 1893400000000"

definition oil_summit :: form_data where
  "oil_summit =
     \<lparr>fd_name = ''Oil Summit'', fd_description = ''Talks'',
      fd_start_time = ''2030-01-01T10:00'', fd_end_time = ''2030-01-01T11:30'',
      fd_location = [], fd_is_online = True, fd_participant_limit = ''50'',
      fd_tags = '' web3, rust,,'', fd_registration_deadline = [], fd_website_url = [],
      fd_discord_url = [], fd_twitter_url = ''https://x.example/oil'', fd_requirements = [],
      fd_banner_image_url = []\<rparr>"

text \<open>The record that the submission of this form inserts, and what the run leaves behind.\<close>

definition oil_event :: "custom_field list option \<Rightarrow> event_data" where
  "oil_event cfs =
     \<lparr>ev_name = ''Oil Summit'', ev_description = ''Talks'',
      ev_start_time = ''2030-01-01T10:00:00.000Z'', ev_end_time = ''2030-01-01T11:30:00.000Z'',
      ev_organizer_id = ''u1'', ev_organizer_name = ''Ada'', ev_location = None,
      ev_is_online = True, ev_participant_limit = Some (Number 50),
      ev_tags = Some [''web3'', ''rust''], ev_custom_fields = cfs,
      ev_registration_deadline = None, ev_website_url = None, ev_discord_url = None,
      ev_twitter_url = Some ''https://x.example/oil'', ev_requirements = None,
      ev_banner_image_url = None, ev_short_code = ''oil2222''\<rparr>"

definition oil_run :: "custom_field list option \<Rightarrow> nat submit_result" where
  "oil_run cfs =
     \<lparr>out_toasts = [ToastSuccess ''Event created successfully!''],
      out_push = Some ''/events/77'',
      out_calls =
        [SelectUserName ''u1'', SelectEventId ''oil2222'', SelectEventId ''oil2222'',
         InsertEvent (oil_event cfs)],
      out_world = 4, out_rng = zeros\<rparr>"

text \<open>The same form with no tags and no participant limit, and what its submission does.\<close>

definition bare_summit :: form_data where
  "bare_summit = oil_summit\<lparr>fd_tags := [], fd_participant_limit := []\<rparr>"

definition bare_event :: event_data where
  "bare_event = (oil_event None)\<lparr>ev_tags := None, ev_participant_limit := None\<rparr>"

definition bare_run :: "nat submit_result" where
  "bare_run =
     (oil_run None)
       \<lparr>out_calls :=
          [SelectUserName ''u1'', SelectEventId ''oil2222'', SelectEventId ''oil2222'',
           InsertEvent bare_event]\<rparr>"

section \<open>Properties of the numbers\<close>

lemma powr_nonneg_exponent:
  assumes "0 \<le> e"
  shows "2 powr real_of_int e = 2 ^ nat e"
proof -
  have "real_of_int e = real (nat e)" using assms by simp
  then have "2 powr real_of_int e = 2 powr real (nat e)" by (simp only:)
  also have "\<dots> = 2 ^ nat e" by (simp add: powr_realpow)
  finally show ?thesis .
qed

lemma powr_neg_exponent:
  assumes "e < 0"
  shows "2 powr real_of_int e = 1 / 2 ^ nat (- e)"
proof -
  have "real_of_int e = - real (nat (- e))" using assms by simp
  then have "2 powr real_of_int e = 2 powr (- real (nat (- e)))" by (simp only:)
  also have "\<dots> = 1 / 2 powr real (nat (- e))" by (rule powr_minus_divide)
  also have "\<dots> = 1 / 2 ^ nat (- e)" by (simp add: powr_realpow)
  finally show ?thesis .
qed

lemma Math_floor_value: "Math_floor d = \<lfloor>double_value d\<rfloor>"
proof (cases "0 \<le> exponent d")
  case True
  have "double_value d = real (mantissa d * 2 ^ nat (exponent d))"
    by (simp add: double_value_def powr_nonneg_exponent[OF True])
  then have "\<lfloor>double_value d\<rfloor> = int (mantissa d * 2 ^ nat (exponent d))"
    by (simp only: floor_of_nat)
  then show ?thesis using True by (simp add: Math_floor_def)
next
  case False
  then have neg: "exponent d < 0" by simp
  have "double_value d = real (mantissa d) / real (2 ^ nat (- exponent d))"
    by (simp add: double_value_def powr_neg_exponent[OF neg])
  then have "\<lfloor>double_value d\<rfloor> = int (mantissa d div 2 ^ nat (- exponent d))"
    by (simp only: floor_divide_of_nat_eq)
  then show ?thesis using False by (simp add: Math_floor_def)
qed

lemma round_shift_bound: "round_shift M = 0 \<or> 2 ^ (52 + round_shift M) \<le> M"
proof (induction M rule: round_shift.induct)
  case (1 M)
  show ?case
  proof (cases "M < 2 ^ 53")
    case True
    then show ?thesis by (simp add: round_shift.simps)
  next
    case False
    then have s: "round_shift M = Suc (round_shift (M div 2))"
      by (subst round_shift.simps) simp
    from "1.IH"[OF False] show ?thesis
    proof
      assume "round_shift (M div 2) = 0"
      then show ?thesis using s False by simp
    next
      assume "2 ^ (52 + round_shift (M div 2)) \<le> M div 2"
      then have "2 * 2 ^ (52 + round_shift (M div 2)) \<le> M" by simp
      moreover have "(2::nat) ^ (52 + Suc (round_shift (M div 2)))
                       = 2 * 2 ^ (52 + round_shift (M div 2))"
        by (simp add: power_add)
      ultimately have "2 ^ (52 + round_shift M) \<le> M" by (simp only: s)
      then show ?thesis ..
    qed
  qed
qed

lemma round_half_even_upper:
  "real (round_half_even M s) * 2 ^ s \<le> real M + (if s = 0 then 0 else 2 ^ (s - 1))"
proof (cases "s = 0")
  case True
  then show ?thesis by (simp add: round_half_even_def)
next
  case False
  define q where "q = M div 2 ^ s"
  define r where "r = M mod 2 ^ s"
  have M: "M = q * 2 ^ s + r" by (simp only: q_def r_def div_mult_mod_eq)
  have two: "(2::nat) ^ s = 2 * 2 ^ (s - 1)" using False by (cases s) simp_all
  have up: "round_half_even M s \<le> q + 1"
    using False by (simp add: round_half_even_def Let_def q_def)
  have down: "round_half_even M s = q" if "r < 2 ^ (s - 1)"
    using False that by (simp add: round_half_even_def Let_def q_def r_def)
  have "round_half_even M s * 2 ^ s \<le> M + 2 ^ (s - 1)"
  proof (cases "r < 2 ^ (s - 1)")
    case True
    then show ?thesis using down M by simp
  next
    case False
    then have "2 ^ s \<le> r + 2 ^ (s - 1)" using two by simp
    then have "(q + 1) * 2 ^ s \<le> M + 2 ^ (s - 1)" using M by (simp add: algebra_simps)
    moreover have "round_half_even M s * 2 ^ s \<le> (q + 1) * 2 ^ s"
      using up by (rule mult_le_mono1)
    ultimately show ?thesis by linarith
  qed
  then have "real (round_half_even M s * 2 ^ s) \<le> real (M + 2 ^ (s - 1))"
    by (rule of_nat_mono)
  then show ?thesis using False by simp
qed

lemma double_times_value:
  "double_value (double_times d n) =
     real (round_half_even (mantissa d * n) (round_shift (mantissa d * n)))
       * 2 ^ round_shift (mantissa d * n) * 2 powr real_of_int (exponent d)"
  by (simp add: double_times_def double_value_def Let_def powr_add powr_realpow)

lemma unit_double_below:
  assumes "unit_double d" "mantissa d \<noteq> 0"
  shows "real (mantissa d) * 2 powr real_of_int (exponent d) \<le> 1 - 2 powr real_of_int (exponent d)"
proof -
  let ?k = "nat (- exponent d)"
  have e: "exponent d < 0" and m: "mantissa d < 2 ^ ?k"
    using assms by (simp_all add: unit_double_def)
  have p: "2 powr real_of_int (exponent d) * 2 ^ ?k = 1"
    by (simp add: powr_neg_exponent[OF e])
  have "mantissa d + 1 \<le> 2 ^ ?k" using m by simp
  then have "real (mantissa d + 1) \<le> real (2 ^ ?k)" by (rule of_nat_mono)
  then have "real (mantissa d) + 1 \<le> 2 ^ ?k" by simp
  then have "(real (mantissa d) + 1) * 2 powr real_of_int (exponent d)
               \<le> 2 ^ ?k * 2 powr real_of_int (exponent d)"
    by (rule mult_right_mono) simp
  then show ?thesis using p by (simp add: algebra_simps)
qed

lemma random_index_below:
  assumes "unit_double d" "0 < n"
  shows "Math_floor (double_times d n) < int n"
proof (cases "mantissa d = 0")
  case True
  then show ?thesis using assms(2)
    by (simp add: double_times_def Math_floor_def round_shift.simps round_half_even_def)
next
  case False
  let ?m = "mantissa d" and ?p = "2 powr real_of_int (exponent d)"
  let ?s = "round_shift (?m * n)"
  let ?h = "if ?s = 0 then 0 else 2 ^ (?s - 1) :: real"
  have p: "0 < ?p" by simp
  have below: "real ?m * ?p \<le> 1 - ?p" by (rule unit_double_below[OF assms(1) False])
  have h: "?h < real n"
  proof (cases "?s = 0")
    case True
    then show ?thesis using assms(2) by simp
  next
    case False
    then have "2 ^ (52 + ?s) \<le> ?m * n" using round_shift_bound[of "?m * n"] by simp
    also have "\<dots> < 2 ^ 53 * n"
      using assms by (simp add: unit_double_def)
    finally have "(2::nat) ^ (52 + ?s) < 2 ^ 53 * n" .
    moreover have "(2::nat) ^ (52 + ?s) = 2 ^ 53 * 2 ^ (?s - 1)"
    proof -
      obtain t where t: "?s = Suc t" using False by (cases ?s) auto
      show ?thesis unfolding t by (simp add: power_add)
    qed
    ultimately have "(2::nat) ^ (?s - 1) < n" by simp
    then have "real (2 ^ (?s - 1)) < real n" by (simp only: of_nat_less_iff)
    then show ?thesis using False by simp
  qed
  have "double_value (double_times d n) \<le> (real (?m * n) + ?h) * ?p"
    unfolding double_times_value
    by (rule mult_right_mono[OF round_half_even_upper]) simp
  also have "\<dots> = real n * (real ?m * ?p) + ?h * ?p"
    by (simp add: algebra_simps)
  also have "\<dots> \<le> real n * (1 - ?p) + ?h * ?p"
    using below by (simp add: mult_left_mono)
  also have "\<dots> = real n - (real n - ?h) * ?p"
    by (simp add: algebra_simps)
  also have "\<dots> < real n"
    using h p by simp
  finally have "double_value (double_times d n) < real n" .
  then show ?thesis by (simp add: Math_floor_value floor_less_iff)
qed

lemma random_index_nonneg: "0 \<le> Math_floor d"
  by (simp add: Math_floor_def)

lemma unit_double_value:
  "unit_double d \<longleftrightarrow> mantissa d < 2 ^ 53 \<and> double_value d < 1"
proof (cases "mantissa d = 0")
  case True
  then show ?thesis by (simp add: unit_double_def double_value_def)
next
  case False
  show ?thesis
  proof (cases "exponent d < 0")
    case True
    let ?k = "nat (- exponent d)"
    have "double_value d = real (mantissa d) / 2 ^ ?k"
      by (simp add: double_value_def powr_neg_exponent[OF True])
    then have "double_value d < 1 \<longleftrightarrow> real (mantissa d) < 2 ^ ?k"
      by (simp add: pos_divide_less_eq)
    also have "\<dots> \<longleftrightarrow> mantissa d < 2 ^ ?k"
      by (metis of_nat_less_iff of_nat_numeral of_nat_power)
    finally show ?thesis using True False by (simp add: unit_double_def)
  next
    case False
    then have nn: "0 \<le> exponent d" by simp
    have "1 \<le> (2::real) ^ nat (exponent d)" by simp
    then have "1 \<le> 2 powr real_of_int (exponent d)"
      by (simp only: powr_nonneg_exponent[OF nn])
    moreover have "1 \<le> real (mantissa d)" using \<open>mantissa d \<noteq> 0\<close> by simp
    ultimately have "1 \<le> double_value d"
      unfolding double_value_def by (metis mult_mono' mult_1 zero_le_one)
    then show ?thesis using False \<open>mantissa d \<noteq> 0\<close> by (simp add: unit_double_def)
  qed
qed

lemma to_double_exact:
  assumes "\<bar>i\<bar> < 2 ^ 53"
  shows "to_double i = i"
proof -
  have "nat \<bar>i\<bar> < 2 ^ 53" using assms by (simp add: nat_less_iff)
  then have "round_shift (nat \<bar>i\<bar>) = 0" by (simp add: round_shift.simps)
  then have "to_double i = sgn i * \<bar>i\<bar>"
    by (simp add: to_double_def round_half_even_def)
  then show ?thesis by (simp add: mult_sgn_abs)
qed

lemmas double_eval = double_times_def Math_floor_def round_shift.simps round_half_even_def
  to_double_def


section \<open>Properties of generateShortCode\<close>


lemma length_characters: "length characters = 31"
  by (simp add: characters_def)

lemma random_index_bounds:
  assumes "unit_double d"
  shows "0 \<le> Math_floor (double_times d (length characters))"
    and "Math_floor (double_times d (length characters)) < int (length characters)"
  using random_index_below[OF assms, of "length characters"]
  by (simp_all add: random_index_nonneg length_characters)

lemma charAt_random:
  assumes "unit_double d"
  shows "charAt characters (Math_floor (double_times d (length characters))) = [random_char d]"
  using random_index_bounds[OF assms] by (simp add: charAt_def random_char_def)

lemma random_char_in_characters:
  assumes "unit_double d"
  shows "random_char d \<in> set characters"
proof -
  have "nat (Math_floor (double_times d (length characters))) < length characters"
    using random_index_bounds[OF assms] by linarith
  then show ?thesis unfolding random_char_def by (rule nth_mem)
qed

lemma valid_random_shd: "valid_random rs \<Longrightarrow> unit_double (shd rs)"
  by (simp add: valid_random_def shd_sset)

lemma valid_random_stl: "valid_random rs \<Longrightarrow> valid_random (stl rs)"
  using stl_sset by (fastforce simp: valid_random_def)

lemma valid_random_sdrop: "valid_random rs \<Longrightarrow> valid_random (sdrop n rs)"
  by (induction n arbitrary: rs) (simp_all add: valid_random_stl)

lemma fill_random_done: "targetLength \<le> length result \<Longrightarrow> fill_random result rs = Some (result, rs)"
  by (subst fill_random.simps) simp

lemma fill_random_eq:
  assumes "valid_random rs" "length result + n = targetLength"
  shows "fill_random result rs = Some (result @ map random_char (stake n rs), sdrop n rs)"
  using assms
proof (induction n arbitrary: result rs)
  case 0
  then show ?case by (simp add: fill_random_done)
next
  case (Suc n)
  have sh: "unit_double (shd rs)" using valid_random_shd[OF Suc.prems(1)] .
  have lt: "length result < targetLength" using Suc.prems(2) by simp
  have "fill_random result rs = fill_random (result @ [random_char (shd rs)]) (stl rs)"
    by (subst fill_random.simps) (simp add: lt charAt_random[OF sh])
  also have "\<dots> = Some ((result @ [random_char (shd rs)]) @ map random_char (stake n (stl rs)), sdrop n (stl rs))"
    by (rule Suc.IH) (use Suc.prems in \<open>simp_all add: valid_random_stl\<close>)
  finally show ?case by simp
qed

lemma length_seed_prefix: "length (seed_prefix e) \<le> 3"
  by (simp add: seed_prefix_def substring0_def Let_def)

lemma generateShortCode_eq:
  assumes "valid_random rs"
  shows "generateShortCode e rs =
    Some (seed_prefix e @ map random_char (stake (targetLength - length (seed_prefix e)) rs),
          sdrop (targetLength - length (seed_prefix e)) rs)"
  unfolding generateShortCode_def
  by (rule fill_random_eq[OF assms]) (use length_seed_prefix[of e] in \<open>simp add: targetLength_def\<close>)

lemma is_lower_alnum_characters: "c \<in> set characters \<Longrightarrow> is_lower_alnum c"
  by (auto simp: characters_def is_lower_alnum_def lower_letters_def digits_def)

lemma seed_prefix_alnum: "c \<in> set (seed_prefix e) \<Longrightarrow> is_lower_alnum c"
  by (auto simp: seed_prefix_def substring0_def replace_non_alnum_def Let_def
      split: if_splits dest: in_set_takeD)

lemma set_stake_sset: "set (stake n rs) \<subseteq> sset rs"
proof (induction n arbitrary: rs)
  case 0
  show ?case by simp
next
  case (Suc n)
  have "set (stake n (stl rs)) \<subseteq> sset (stl rs)" by (rule Suc.IH)
  also have "\<dots> \<subseteq> sset rs" using stl_sset by fastforce
  finally show ?case by (simp add: shd_sset)
qed

lemma random_chars_in_characters:
  assumes "valid_random rs" "c \<in> set (map random_char (stake n rs))"
  shows "c \<in> set characters"
proof -
  from assms(2) obtain r where r: "r \<in> set (stake n rs)" "c = random_char r" by auto
  from r(1) have "r \<in> sset rs" using set_stake_sset[of n rs] ..
  then have "unit_double r" using assms(1) by (simp add: valid_random_def)
  then show ?thesis using r(2) random_char_in_characters by simp
qed

lemma valid_zeros: "valid_random zeros"
  by (simp add: valid_random_def zeros_def unit_double_def)

lemma shd_zeros: "shd zeros = Double 0 0"
  by (simp add: zeros_def)

lemma stl_zeros: "stl zeros = zeros"
  by (simp add: zeros_def)

lemma valid_rounded_draws: "valid_random rounded_draws"
  by (simp add: valid_random_def rounded_draws_def unit_double_def)

lemma shd_rounded_draws: "shd rounded_draws = Double 1162219258676257 (- 52)"
  by (simp add: rounded_draws_def)

lemma stl_rounded_draws: "stl rounded_draws = rounded_draws"
  by (simp add: rounded_draws_def)

lemmas gen_eval = generateShortCode_def seed_prefix_def truthy_def substring0_def
  replace_non_alnum_def toLowerCase_def toLowerCase_char_def is_lower_alnum_def
  upper_letters_def lower_letters_def digits_def fill_random.simps targetLength_def
  characters_def charAt_def double_times_def Math_floor_def round_shift.simps
  round_half_even_def shd_zeros stl_zeros shd_rounded_draws stl_rounded_draws

text \<open>
  Claim C2, as the specification states it: for every seed, the code has length 7 and
  every character of it is drawn from the 32-symbol alphabet. It fails on the seed
  \<^verbatim>\<open>Oil\<close>: the code starts with the prefix \<^verbatim>\<open>oil\<close>, and the alphabet has no
  \<^verbatim>\<open>o\<close>, \<^verbatim>\<open>i\<close> or \<^verbatim>\<open>l\<close>. The alphabet has 31 symbols.
\<close>

theorem generateShortCode_alphabet_counterexample:
  "valid_random zeros
   \<and> generateShortCode (Some ''Oil'') zeros = Some (''oil2222'', zeros)
   \<and> CHR ''o'' \<in> set ''oil2222'' \<and> CHR ''o'' \<notin> set characters
   \<and> length characters \<noteq> 32"
  by (simp add: gen_eval valid_zeros)

text \<open>
  Claim C2, amended: for every seed (absent too) and every random generator that keeps
  the promise of \<^verbatim>\<open>Math.random\<close>, \<open>generateShortCode\<close> returns a code of length
  exactly 7 whose characters all are in \<^verbatim>\<open>[a-z0-9]\<close>; the code starts with the prefix
  taken from the seed, and every character after the prefix (all seven when there is no
  prefix) is drawn from the alphabet, which has 31 symbols.
\<close>

theorem generateShortCode_shape:
  assumes "valid_random rs"
  shows "\<exists>code rs'. generateShortCode eventName rs = Some (code, rs')
           \<and> length code = 7
           \<and> (\<forall>c \<in> set code. is_lower_alnum c)
           \<and> take (length (seed_prefix eventName)) code = seed_prefix eventName
           \<and> (\<forall>c \<in> set (drop (length (seed_prefix eventName)) code). c \<in> set characters)
           \<and> length characters = 31"
proof -
  let ?p = "seed_prefix eventName"
  let ?f = "map random_char (stake (targetLength - length ?p) rs)"
  have eq: "generateShortCode eventName rs = Some (?p @ ?f, sdrop (targetLength - length ?p) rs)"
    by (rule generateShortCode_eq[OF assms])
  have len: "length (?p @ ?f) = 7"
    using length_seed_prefix[of eventName] by (simp add: targetLength_def)
  have fill: "\<forall>c \<in> set ?f. c \<in> set characters"
    using random_chars_in_characters[OF assms] by blast
  have alnum: "\<forall>c \<in> set (?p @ ?f). is_lower_alnum c"
    using fill seed_prefix_alnum is_lower_alnum_characters by auto
  show ?thesis
    using eq len fill alnum length_characters by simp
qed

theorem generateShortCode_shape_witness:
  "valid_random zeros
   \<and> generateShortCode (Some ''Oil'') zeros = Some (''oil2222'', zeros)
   \<and> length ''oil2222'' = 7
   \<and> list_all is_lower_alnum ''oil2222''
   \<and> take (length (seed_prefix (Some ''Oil''))) ''oil2222'' = seed_prefix (Some ''Oil'')
   \<and> list_all (\<lambda>c. c \<in> set characters)
         (drop (length (seed_prefix (Some ''Oil''))) ''oil2222'')"
proof -
  have v: "valid_random zeros" by (rule valid_zeros)
  have e: "generateShortCode (Some ''Oil'') zeros = Some (''oil2222'', zeros)"
    by (simp add: gen_eval)
  show ?thesis
    using generateShortCode_shape[OF v, of "Some ''Oil''"] v e by (auto simp: list_all_iff)
qed

text \<open>
  Claim C3: lowercase the seed, delete the characters outside \<^verbatim>\<open>[a-z0-9]\<close> and keep
  the first three. When at least two characters are kept, the code starts with them and
  random characters fill the rest; when the cleaned seed has no or one character, all
  seven characters of the code are random characters of the alphabet.
\<close>

theorem generateShortCode_prefix:
  assumes "valid_random rs"
  shows "\<exists>code rs'. generateShortCode (Some seed) rs = Some (code, rs')
           \<and> (let cleaned = filter is_lower_alnum (toLowerCase seed); prefix = take 3 cleaned
              in (length prefix \<ge> 2 \<longrightarrow>
                    take (length prefix) code = prefix
                    \<and> drop (length prefix) code = map random_char (stake (7 - length prefix) rs))
               \<and> (length cleaned \<le> 1 \<longrightarrow>
                    code = map random_char (stake 7 rs) \<and> (\<forall>c \<in> set code. c \<in> set characters)))"
proof -
  let ?cl = "filter is_lower_alnum (toLowerCase seed)"
  let ?p = "seed_prefix (Some seed)"
  let ?f = "map random_char (stake (targetLength - length ?p) rs)"
  have eq: "generateShortCode (Some seed) rs = Some (?p @ ?f, sdrop (targetLength - length ?p) rs)"
    by (rule generateShortCode_eq[OF assms])
  have ne: "2 \<le> length (take 3 ?cl) \<Longrightarrow> seed \<noteq> []"
    by (auto simp: toLowerCase_def)
  have long: "2 \<le> length (take 3 ?cl) \<Longrightarrow> ?p = take 3 ?cl"
    using ne by (simp add: seed_prefix_def truthy_def substring0_def replace_non_alnum_def Let_def)
  have short: "length ?cl \<le> 1 \<Longrightarrow> ?p = []"
    by (simp add: seed_prefix_def truthy_def substring0_def replace_non_alnum_def Let_def)
  have rnd: "\<forall>c \<in> set (map random_char (stake 7 rs)). c \<in> set characters"
    using random_chars_in_characters[OF assms] by blast
  show ?thesis
    unfolding eq Let_def using long short rnd by (auto simp: targetLength_def min_def)
qed

theorem generateShortCode_prefix_witness:
  "valid_random zeros
   \<and> 2 \<le> length (take 3 (filter is_lower_alnum (toLowerCase ''Oil & Gas'')))
   \<and> generateShortCode (Some ''Oil & Gas'') zeros = Some (''oil2222'', zeros)
   \<and> take 3 ''oil2222'' = take 3 (filter is_lower_alnum (toLowerCase ''Oil & Gas''))
   \<and> length (filter is_lower_alnum (toLowerCase ''X!'')) \<le> 1
   \<and> generateShortCode (Some ''X!'') zeros = Some (''2222222'', zeros)
   \<and> ''2222222'' = map random_char (stake 7 zeros)
   \<and> valid_random rounded_draws
   \<and> generateShortCode (Some ''X!'') rounded_draws = Some (''aaaaaaa'', rounded_draws)
   \<and> ''aaaaaaa'' = map random_char (stake 7 rounded_draws)"
proof -
  have v: "valid_random zeros" by (rule valid_zeros)
  have c1: "filter is_lower_alnum (toLowerCase ''Oil & Gas'') = ''oilgas''"
    by (simp add: gen_eval)
  have c2: "filter is_lower_alnum (toLowerCase ''X!'') = ''x''"
    by (simp add: gen_eval)
  have e1: "generateShortCode (Some ''Oil & Gas'') zeros = Some (''oil2222'', zeros)"
    by (simp add: gen_eval)
  have e2: "generateShortCode (Some ''X!'') zeros = Some (''2222222'', zeros)"
    by (simp add: gen_eval)
  have v3: "valid_random rounded_draws" by (rule valid_rounded_draws)
  have e3: "generateShortCode (Some ''X!'') rounded_draws = Some (''aaaaaaa'', rounded_draws)"
    by (simp add: gen_eval)
  have r3: "''aaaaaaa'' = map random_char (stake 7 rounded_draws)"
    using generateShortCode_prefix[OF v3, of "''X!''"] c2 e3 by (simp add: Let_def)
  show ?thesis
    using generateShortCode_prefix[OF v, of "''Oil & Gas''"]
      generateShortCode_prefix[OF v, of "''X!''"] v c1 c2 e1 e2 v3 e3 r3
    by (simp add: Let_def)
qed

section \<open>Properties of generateUniqueShortCode\<close>

lemma generateShortCode_returns:
  assumes "valid_random rs"
  obtains c rs1 where "generateShortCode e rs = Some (c, rs1)" "valid_random rs1"
  using generateShortCode_eq[OF assms, of e] valid_random_sdrop[OF assms] by blast

lemma run_attempts_length:
  "run_attempts lookup e n w rs = Some (tr, w', rs') \<Longrightarrow> length tr = n"
  by (induction n arbitrary: w rs tr) (auto split: option.splits prod.splits)

lemma run_attempts_returns:
  "valid_random rs \<Longrightarrow> \<exists>tr w' rs'. run_attempts lookup e n w rs = Some (tr, w', rs')"
proof (induction n arbitrary: w rs)
  case 0
  show ?case by simp
next
  case (Suc n)
  obtain c rs1 where g: "generateShortCode e rs = Some (c, rs1)" and v: "valid_random rs1"
    using generateShortCode_returns[OF Suc.prems] by blast
  obtain r w1 where l: "lookup w c = (r, w1)" by (cases "lookup w c")
  obtain tr w' rs' where "run_attempts lookup e n w1 rs1 = Some (tr, w', rs')"
    using Suc.IH[OF v] by blast
  then show ?case using g l by simp
qed

lemma attempt_loop_fallback:
  "attempts \<ge> maxAttempts \<Longrightarrow>
   attempt_loop lookup e attempts ls w rs =
     (case generateShortCode None rs of None \<Rightarrow> None | Some (c, rs1) \<Rightarrow> Some (c, ls, w, rs1))"
  by (subst attempt_loop.simps) simp

lemma attempt_loop_step:
  assumes "attempts < maxAttempts" "generateShortCode e rs = Some (c, rs1)" "lookup w c = (r, w1)"
  shows "attempt_loop lookup e attempts ls w rs =
     (if no_match_found r then Some (c, ls @ [c], w1, rs1)
      else attempt_loop lookup e (attempts + 1) (ls @ [c]) w1 rs1)"
  by (subst attempt_loop.simps) (simp add: assms)

lemma attempt_loop_accept:
  assumes "run_attempts lookup e n w rs = Some (tr, w', rs')" "1 \<le> n" "a + n \<le> maxAttempts"
    "no_match_found (snd (last tr))" "\<forall>x \<in> set (butlast tr). \<not> no_match_found (snd x)"
  shows "attempt_loop lookup e a ls w rs = Some (fst (last tr), ls @ map fst tr, w', rs')"
  using assms
proof (induction n arbitrary: a ls w rs tr)
  case 0
  then show ?case by simp
next
  case (Suc m)
  from Suc.prems(1) obtain c rs1 r w1 rest where
    g: "generateShortCode e rs = Some (c, rs1)" and l: "lookup w c = (r, w1)"
    and rest: "run_attempts lookup e m w1 rs1 = Some (rest, w', rs')" and tr: "tr = (c, r) # rest"
    by (auto split: option.splits prod.splits)
  have a: "a < maxAttempts" using Suc.prems(3) by simp
  have len: "length rest = m" using run_attempts_length[OF rest] .
  show ?case
  proof (cases m)
    case 0
    then have "rest = []" using len by simp
    then show ?thesis
      using Suc.prems(4) rest 0 tr attempt_loop_step[where lookup=lookup and w=w and ls=ls, OF a g l] by simp
  next
    case (Suc k)
    then have ne: "rest \<noteq> []" using len by auto
    have nf: "\<not> no_match_found r" using Suc.prems(5) tr ne by simp
    have "attempt_loop lookup e (a + 1) (ls @ [c]) w1 rs1 =
            Some (fst (last rest), (ls @ [c]) @ map fst rest, w', rs')"
      by (rule Suc.IH[OF rest]) (use Suc Suc.prems tr ne in \<open>auto\<close>)
    then show ?thesis
      using attempt_loop_step[where lookup=lookup and w=w and ls=ls, OF a g l] nf tr ne by simp
  qed
qed

lemma attempt_loop_exhaust:
  assumes "run_attempts lookup e n w rs = Some (tr, w', rs')" "a + n = maxAttempts"
    "\<forall>x \<in> set tr. \<not> no_match_found (snd x)"
  shows "attempt_loop lookup e a ls w rs =
     (case generateShortCode None rs' of None \<Rightarrow> None
      | Some (c, rs'') \<Rightarrow> Some (c, ls @ map fst tr, w', rs''))"
  using assms
proof (induction n arbitrary: a ls w rs tr)
  case 0
  then show ?case by (auto simp: attempt_loop_fallback split: option.splits)
next
  case (Suc m)
  from Suc.prems(1) obtain c rs1 r w1 rest where
    g: "generateShortCode e rs = Some (c, rs1)" and l: "lookup w c = (r, w1)"
    and rest: "run_attempts lookup e m w1 rs1 = Some (rest, w', rs')" and tr: "tr = (c, r) # rest"
    by (auto split: option.splits prod.splits)
  have a: "a < maxAttempts" using Suc.prems(2) by simp
  have nf: "\<not> no_match_found r" using Suc.prems(3) tr by simp
  have "attempt_loop lookup e (a + 1) (ls @ [c]) w1 rs1 =
     (case generateShortCode None rs' of None \<Rightarrow> None
      | Some (c', rs'') \<Rightarrow> Some (c', (ls @ [c]) @ map fst rest, w', rs''))"
    by (rule Suc.IH[OF rest]) (use Suc.prems tr in \<open>auto\<close>)
  then show ?case
    using attempt_loop_step[where lookup=lookup and w=w and ls=ls, OF a g l] nf tr
    by (simp split: option.splits)
qed

lemma attempt_loop_bound:
  "attempt_loop lookup e a ls w rs = Some (c, ls', w', rs') \<Longrightarrow>
   length ls' \<le> length ls + (maxAttempts - a)"
proof (induction lookup e a ls w rs rule: attempt_loop.induct)
  case (1 lookup e a ls w rs)
  show ?case
  proof (cases "a < maxAttempts")
    case False
    then show ?thesis using "1.prems"
      by (auto simp: attempt_loop_fallback split: option.splits)
  next
    case True
    from "1.prems" True obtain c1 rs1 where g: "generateShortCode e rs = Some (c1, rs1)"
      by (subst (asm) attempt_loop.simps) (auto split: option.splits)
    obtain r w1 where l: "lookup w c1 = (r, w1)" by (cases "lookup w c1")
    show ?thesis
    proof (cases "no_match_found r")
      case True
      then show ?thesis
        using "1.prems" \<open>a < maxAttempts\<close>
          attempt_loop_step[where lookup=lookup and w=w and ls=ls, OF \<open>a < maxAttempts\<close> g l]
        by auto
    next
      case False
      then have "attempt_loop lookup e (a + 1) (ls @ [c1]) w1 rs1 = Some (c, ls', w', rs')"
        using "1.prems"
          attempt_loop_step[where lookup=lookup and w=w and ls=ls, OF \<open>a < maxAttempts\<close> g l]
        by simp
      then have "length ls' \<le> length (ls @ [c1]) + (maxAttempts - (a + 1))"
        using "1.IH"[OF True g refl l[symmetric] False] by simp
      then show ?thesis using True by simp
    qed
  qed
qed

lemma attempt_loop_returns:
  "valid_random rs \<Longrightarrow> \<exists>res. attempt_loop lookup e a ls w rs = Some res"
proof (induction lookup e a ls w rs rule: attempt_loop.induct)
  case (1 lookup e a ls w rs)
  show ?case
  proof (cases "a < maxAttempts")
    case False
    obtain c rs1 where "generateShortCode None rs = Some (c, rs1)"
      using generateShortCode_returns[OF "1.prems"] by blast
    then show ?thesis using False by (simp add: attempt_loop_fallback)
  next
    case True
    obtain c1 rs1 where g: "generateShortCode e rs = Some (c1, rs1)" and v: "valid_random rs1"
      using generateShortCode_returns[OF "1.prems"] by blast
    obtain r w1 where l: "lookup w c1 = (r, w1)" by (cases "lookup w c1")
    show ?thesis
    proof (cases "no_match_found r")
      case True
      then show ?thesis
        using attempt_loop_step[where lookup=lookup and w=w and ls=ls, OF \<open>a < maxAttempts\<close> g l]
        by simp
    next
      case False
      then show ?thesis
        using "1.IH"[OF True g refl l[symmetric] False v]
          attempt_loop_step[where lookup=lookup and w=w and ls=ls, OF \<open>a < maxAttempts\<close> g l] by simp
    qed
  qed
qed

text \<open>The functions at the concrete inputs.\<close>

lemma valid_three_draws: "valid_random three_draws"
  by (simp add: valid_random_def three_draws_def unit_double_def)

lemma gen_oil_0: "generateShortCode (Some ''Oil'') zeros = Some (''oil2222'', zeros)"
  by (simp add: gen_eval)

lemma gen_none_0: "generateShortCode None zeros = Some (''2222222'', zeros)"
  by (simp add: gen_eval)

lemma gen_oil_1:
  "generateShortCode (Some ''Oil'') (cycle [Double 0 0, Double 2 (- 2), Double 5 (- 4)])
     = Some (''oil2hb2'', cycle [Double 2 (- 2), Double 5 (- 4), Double 0 0])"
  by (simp add: gen_eval)

lemma gen_oil_2:
  "generateShortCode (Some ''Oil'') (cycle [Double 2 (- 2), Double 5 (- 4), Double 0 0])
     = Some (''oilhb2h'', cycle [Double 5 (- 4), Double 0 0, Double 2 (- 2)])"
  by (simp add: gen_eval)

lemma gen_oil_3:
  "generateShortCode (Some ''Oil'') (cycle [Double 5 (- 4), Double 0 0, Double 2 (- 2)])
     = Some (''oilb2hb'', cycle [Double 0 0, Double 2 (- 2), Double 5 (- 4)])"
  by (simp add: gen_eval)

lemmas answers_eval = answer_no_rows_def answer_row_def answer_failure_def no_match_found_def

lemma run_free_on_third:
  "run_attempts free_on_third (Some ''Oil'') 3 0 three_draws =
     Some ([(''oil2hb2'', answer_failure), (''oilhb2h'', answer_row), (''oilb2hb'', answer_no_rows)],
           3, three_draws)"
  by (simp add: numeral_3_eq_3 three_draws_def gen_oil_1 gen_oil_2 gen_oil_3 free_on_third_def)

lemma run_always_taken:
  "run_attempts always_taken (Some ''Oil'') 10 0 zeros =
     Some (replicate 10 (''oil2222'', answer_row), 10, zeros)"
  by (simp add: eval_nat_numeral gen_oil_0 always_taken_def)

text \<open>
  Claim C1: whatever the seed and whatever the lookup answers, \<open>generateUniqueShortCode\<close>
  returns after at most 10 lookups. When the \<open>N\<close>-th attempt (\<open>N\<close> at most 10) is the
  first whose lookup answers with the error code \<^verbatim>\<open>PGRST116\<close>, exactly the \<open>N\<close> codes
  generated so far have been looked up and the \<open>N\<close>-th is returned, with nothing generated
  or looked up after it. When none of 10 attempts gets that answer, the code returned is
  one more code, generated without a seed, and no lookup follows the tenth.
\<close>

theorem generateUniqueShortCode_lookups:
  assumes "valid_random rs"
  shows "\<exists>shortCode lookups w' rs'.
     generateUniqueShortCode lookup eventName w rs = Some (shortCode, lookups, w', rs')
     \<and> length lookups \<le> 10
     \<and> (\<forall>N tr wN rsN.
          1 \<le> N \<and> N \<le> 10 \<and> run_attempts lookup eventName N w rs = Some (tr, wN, rsN)
          \<and> no_match_found (snd (last tr)) \<and> (\<forall>x \<in> set (butlast tr). \<not> no_match_found (snd x))
          \<longrightarrow> length lookups = N \<and> lookups = map fst tr \<and> shortCode = fst (last tr)
              \<and> w' = wN \<and> rs' = rsN)
     \<and> (\<forall>tr w10 rs10.
          run_attempts lookup eventName 10 w rs = Some (tr, w10, rs10)
          \<and> (\<forall>x \<in> set tr. \<not> no_match_found (snd x))
          \<longrightarrow> length lookups = 10 \<and> lookups = map fst tr \<and> w' = w10
              \<and> generateShortCode None rs10 = Some (shortCode, rs'))"
proof -
  obtain shortCode lookups w' rs' where
    res: "attempt_loop lookup eventName 0 [] w rs = Some (shortCode, lookups, w', rs')"
    using attempt_loop_returns[OF assms, of lookup eventName 0 "[]" w] by (metis prod_cases4)
  have bound: "length lookups \<le> 10"
    using attempt_loop_bound[OF res] by (simp add: maxAttempts_def)
  have accept: "length lookups = N \<and> lookups = map fst tr \<and> shortCode = fst (last tr)
              \<and> w' = wN \<and> rs' = rsN"
    if "1 \<le> N" "N \<le> 10" "run_attempts lookup eventName N w rs = Some (tr, wN, rsN)"
      "no_match_found (snd (last tr))" "\<forall>x \<in> set (butlast tr). \<not> no_match_found (snd x)"
    for N tr wN rsN
  proof -
    have "attempt_loop lookup eventName 0 [] w rs = Some (fst (last tr), [] @ map fst tr, wN, rsN)"
      by (rule attempt_loop_accept[OF that(3) that(1) _ that(4) that(5)])
         (use that(2) in \<open>simp add: maxAttempts_def\<close>)
    then show ?thesis using res run_attempts_length[OF that(3)] by auto
  qed
  have exhaust: "length lookups = 10 \<and> lookups = map fst tr \<and> w' = w10
              \<and> generateShortCode None rs10 = Some (shortCode, rs')"
    if "run_attempts lookup eventName 10 w rs = Some (tr, w10, rs10)"
      "\<forall>x \<in> set tr. \<not> no_match_found (snd x)"
    for tr w10 rs10
  proof -
    have "attempt_loop lookup eventName 0 [] w rs =
       (case generateShortCode None rs10 of None \<Rightarrow> None
        | Some (c, rs'') \<Rightarrow> Some (c, [] @ map fst tr, w10, rs''))"
      by (rule attempt_loop_exhaust[OF that(1) _ that(2)]) (simp add: maxAttempts_def)
    then show ?thesis using res run_attempts_length[OF that(1)]
      by (auto split: option.splits)
  qed
  show ?thesis
    unfolding generateUniqueShortCode_def using res bound accept exhaust by blast
qed

theorem generateUniqueShortCode_lookups_witness:
  "valid_random three_draws
   \<and> run_attempts free_on_third (Some ''Oil'') 3 0 three_draws =
       Some ([(''oil2hb2'', answer_failure), (''oilhb2h'', answer_row),
              (''oilb2hb'', answer_no_rows)], 3, three_draws)
   \<and> generateUniqueShortCode free_on_third (Some ''Oil'') 0 three_draws =
       Some (''oilb2hb'', [''oil2hb2'', ''oilhb2h'', ''oilb2hb''], 3, three_draws)
   \<and> valid_random zeros
   \<and> run_attempts always_taken (Some ''Oil'') 10 0 zeros =
       Some (replicate 10 (''oil2222'', answer_row), 10, zeros)
   \<and> generateShortCode None zeros = Some (''2222222'', zeros)
   \<and> generateUniqueShortCode always_taken (Some ''Oil'') 0 zeros =
       Some (''2222222'', replicate 10 ''oil2222'', 10, zeros)"
proof -
  let ?tr = "[(''oil2hb2'', answer_failure), (''oilhb2h'', answer_row), (''oilb2hb'', answer_no_rows)]"
  obtain c ls w' rs' where
    r: "generateUniqueShortCode free_on_third (Some ''Oil'') 0 three_draws = Some (c, ls, w', rs')"
    and acc: "\<And>N tr wN rsN.
          1 \<le> N \<and> N \<le> 10
          \<and> run_attempts free_on_third (Some ''Oil'') N 0 three_draws = Some (tr, wN, rsN)
          \<and> no_match_found (snd (last tr)) \<and> (\<forall>x \<in> set (butlast tr). \<not> no_match_found (snd x))
          \<Longrightarrow> length ls = N \<and> ls = map fst tr \<and> c = fst (last tr) \<and> w' = wN \<and> rs' = rsN"
    using generateUniqueShortCode_lookups[OF valid_three_draws, of free_on_third "Some ''Oil''" 0]
    by blast
  have "length ls = 3 \<and> ls = map fst ?tr \<and> c = fst (last ?tr) \<and> w' = 3 \<and> rs' = three_draws"
    by (rule acc) (simp add: run_free_on_third answers_eval)
  then have first: "generateUniqueShortCode free_on_third (Some ''Oil'') 0 three_draws =
       Some (''oilb2hb'', [''oil2hb2'', ''oilhb2h'', ''oilb2hb''], 3, three_draws)"
    using r by simp
  obtain c2 ls2 w2 rs2 where
    r2: "generateUniqueShortCode always_taken (Some ''Oil'') 0 zeros = Some (c2, ls2, w2, rs2)"
    and exh: "\<And>tr w10 rs10.
          run_attempts always_taken (Some ''Oil'') 10 0 zeros = Some (tr, w10, rs10)
          \<and> (\<forall>x \<in> set tr. \<not> no_match_found (snd x))
          \<Longrightarrow> length ls2 = 10 \<and> ls2 = map fst tr \<and> w2 = w10
              \<and> generateShortCode None rs10 = Some (c2, rs2)"
    using generateUniqueShortCode_lookups[OF valid_zeros, of always_taken "Some ''Oil''" 0]
    by blast
  have "length ls2 = 10 \<and> ls2 = map fst (replicate 10 (''oil2222'', answer_row)) \<and> w2 = 10
              \<and> generateShortCode None zeros = Some (c2, rs2)"
    by (rule exh) (simp add: run_always_taken answers_eval)
  then have second: "generateUniqueShortCode always_taken (Some ''Oil'') 0 zeros =
       Some (''2222222'', replicate 10 ''oil2222'', 10, zeros)"
    using r2 by (simp add: gen_none_0)
  show ?thesis
    using first second valid_three_draws valid_zeros run_free_on_third run_always_taken gen_none_0
    by simp
qed

text \<open>
  Claim C4: an attempt of the loop returns its code exactly when the lookup answered
  with an error whose code is \<^verbatim>\<open>PGRST116\<close>. After any other answer (a row, no
  error at all, an error with another code) the loop goes on with one attempt less to
  spend, the code being counted among those looked up.
\<close>

theorem attempt_accepted_iff_no_rows:
  assumes "attempts < maxAttempts"
    and "generateShortCode eventName rs = Some (shortCode, rs1)"
    and "lookup w shortCode = (r, w1)"
  shows "attempt_loop lookup eventName attempts lookups w rs =
          (if \<exists>e. resp_error r = Some e \<and> err_code e = ''PGRST116''
           then Some (shortCode, lookups @ [shortCode], w1, rs1)
           else attempt_loop lookup eventName (attempts + 1) (lookups @ [shortCode]) w1 rs1)"
proof -
  have "no_match_found r \<longleftrightarrow> (\<exists>e. resp_error r = Some e \<and> err_code e = ''PGRST116'')"
    by (simp add: no_match_found_def split: option.splits)
  then show ?thesis
    using attempt_loop_step[where lookup=lookup and w=w and ls=lookups, OF assms] by simp
qed

theorem attempt_accepted_iff_no_rows_witness:
  "(0::nat) < maxAttempts \<and> (1::nat) < maxAttempts \<and> (2::nat) < maxAttempts
   \<and> generateShortCode (Some ''Oil'') zeros = Some (''oil2222'', zeros)
   \<and> free_on_third 0 ''oil2222'' = (answer_failure, 1)
   \<and> attempt_loop free_on_third (Some ''Oil'') 0 [] 0 zeros =
       attempt_loop free_on_third (Some ''Oil'') 1 [''oil2222''] 1 zeros
   \<and> free_on_third 1 ''oil2222'' = (answer_row, 2)
   \<and> attempt_loop free_on_third (Some ''Oil'') 1 [''oil2222''] 1 zeros =
       attempt_loop free_on_third (Some ''Oil'') 2 [''oil2222'', ''oil2222''] 2 zeros
   \<and> free_on_third 2 ''oil2222'' = (answer_no_rows, 3)
   \<and> attempt_loop free_on_third (Some ''Oil'') 2 [''oil2222'', ''oil2222''] 2 zeros =
       Some (''oil2222'', [''oil2222'', ''oil2222'', ''oil2222''], 3, zeros)"
proof -
  have a: "(0::nat) < maxAttempts" "(1::nat) < maxAttempts" "(2::nat) < maxAttempts"
    by (simp_all add: maxAttempts_def)
  have l0: "free_on_third 0 ''oil2222'' = (answer_failure, 1)"
    and l1: "free_on_third 1 ''oil2222'' = (answer_row, 2)"
    and l2: "free_on_third 2 ''oil2222'' = (answer_no_rows, 3)"
    by (simp_all add: free_on_third_def)
  have s0: "attempt_loop free_on_third (Some ''Oil'') 0 [] 0 zeros =
       attempt_loop free_on_third (Some ''Oil'') 1 [''oil2222''] 1 zeros"
    using attempt_accepted_iff_no_rows[where lookup=free_on_third and w=0 and lookups="[]",
        OF a(1) gen_oil_0 l0]
    by (simp add: answer_failure_def)
  have s1: "attempt_loop free_on_third (Some ''Oil'') 1 [''oil2222''] 1 zeros =
       attempt_loop free_on_third (Some ''Oil'') 2 [''oil2222'', ''oil2222''] 2 zeros"
    using attempt_accepted_iff_no_rows[where lookup=free_on_third and w=1
        and lookups="[''oil2222'']", OF a(2) gen_oil_0 l1]
    by (simp add: answer_row_def numeral_2_eq_2)
  have s2: "attempt_loop free_on_third (Some ''Oil'') 2 [''oil2222'', ''oil2222''] 2 zeros =
       Some (''oil2222'', [''oil2222'', ''oil2222'', ''oil2222''], 3, zeros)"
    using attempt_accepted_iff_no_rows[where lookup=free_on_third and w=2
        and lookups="[''oil2222'', ''oil2222'']", OF a(3) gen_oil_0 l2]
    by (simp add: answer_no_rows_def)
  show ?thesis
    using a gen_oil_0 l0 l1 l2 s0 s1 s2 by blast
qed

section \<open>Properties of the shareable URLs\<close>

lemma is_alnum_ci_characters: "c \<in> set characters \<Longrightarrow> is_alnum_ci c"
  by (auto simp: characters_def is_alnum_ci_def lower_letters_def digits_def)

lemma takeWhile_code:
  assumes "set code \<subseteq> set characters"
  shows "takeWhile is_alnum_ci code = code"
  using assms is_alnum_ci_characters by auto

text \<open>
  Where \<^verbatim>\<open>window\<close> is undefined, the URL is built on the fallback origin, and
  extracting from it gives the code back.
\<close>

lemma extract_of_create_fallback:
  assumes "code \<noteq> []" "set code \<subseteq> set characters"
  shows "extractShortCodeFromURL (createShareableEventURL None code None) = Some code"
  using assms
  by (simp add: createShareableEventURL_def extractShortCodeFromURL_def truthy_def
      takeWhile_code)

text \<open>
  Claim C7: for every non-empty code over the alphabet, extracting from the URL built
  without a base override gives the code back. The code breaks it in a browser whose
  origin is \<^verbatim>\<open>http://e\<close>: \<open>createShareableEventURL\<close> builds
  \<^verbatim>\<open>http://e/e/abc2345\<close>, the pattern of \<open>extractShortCodeFromURL\<close> is not
  anchored, its leftmost match starts at the second slash of \<^verbatim>\<open>//\<close>, and what is
  extracted from the shareable URL is \<^verbatim>\<open>e\<close>, the host, not the code.
\<close>

theorem extract_of_create_host_e:
  "''abc2345'' \<noteq> [] \<and> set ''abc2345'' \<subseteq> set characters
   \<and> createShareableEventURL (Some ''http://e'') ''abc2345'' None = ''http://e/e/abc2345''
   \<and> extractShortCodeFromURL (createShareableEventURL (Some ''http://e'') ''abc2345'' None)
       = Some ''e''
   \<and> Some ''e'' \<noteq> Some ''abc2345''"
  by (simp add: createShareableEventURL_def extractShortCodeFromURL_def truthy_def characters_def
      is_alnum_ci_def lower_letters_def upper_letters_def digits_def)

section \<open>Properties of formatEventDuration\<close>

lemma js_rem_nonneg:
  assumes "0 \<le> t"
  shows "js_rem t 60 = t mod 60"
proof (cases "t = 0")
  case True
  then show ?thesis by (simp add: js_rem_def)
next
  case False
  then have "0 < t" using assms by simp
  then show ?thesis by (simp add: js_rem_def)
qed

lemma formatEventDuration_valid:
  assumes "Date_parse startTime = Some s" and "Date_parse endTime = Some e"
  shows "formatEventDuration Date_parse startTime endTime =
     (let totalMinutes = to_double (e - s) div 60000;
          hours = totalMinutes div 60;
          minutes = js_rem totalMinutes 60
      in if hours = 0 then
           number_toString minutes @ '' minute'' @ (if minutes \<noteq> 1 then ''s'' else [])
         else if minutes = 0 then
           number_toString hours @ '' hour'' @ (if hours \<noteq> 1 then ''s'' else [])
         else
           number_toString hours @ '' hour'' @ (if hours \<noteq> 1 then ''s'' else [])
             @ '' '' @ number_toString minutes @ '' minute''
             @ (if minutes \<noteq> 1 then ''s'' else []))"
  by (simp add: formatEventDuration_def assms)

lemmas number_eval = number_toString_def nat_toString.simps digits_def js_rem_def

lemma formatEventDuration_minutes:
  assumes "Date_parse startTime = Some s" and "Date_parse endTime = Some e"
  shows "e - s = 90 * 60000 \<Longrightarrow>
           formatEventDuration Date_parse startTime endTime = ''1 hour 30 minutes''"
    and "e - s = 60 * 60000 \<Longrightarrow>
           formatEventDuration Date_parse startTime endTime = ''1 hour''"
    and "e - s = 45 * 60000 \<Longrightarrow>
           formatEventDuration Date_parse startTime endTime = ''45 minutes''"
    and "e - s = 61 * 60000 \<Longrightarrow>
           formatEventDuration Date_parse startTime endTime = ''1 hour 1 minute''"
    and "e - s = 1 * 60000 \<Longrightarrow>
           formatEventDuration Date_parse startTime endTime = ''1 minute''"
  by (simp_all add: formatEventDuration_valid[OF assms] number_eval double_eval)

text \<open>
  Claim C8: for two valid dates, \<open>formatEventDuration\<close> takes the difference of their
  times as the code has it (the double nearest to the difference, which is the difference
  itself below \<open>2 ^ 53\<close> milliseconds), the floor of that in minutes, the floor of that in
  hours and the remainder in minutes (for a duration that is not negative, hours and
  minutes add up to the total and the minutes are below 60), and renders the minutes
  alone when the hours are zero, the hours alone when the minutes are zero, and otherwise
  the hours, a space and the minutes, each word in the singular for 1 and in the plural
  otherwise. A span of 90 minutes renders \<^verbatim>\<open>1 hour 30 minutes\<close>, 60 minutes
  \<^verbatim>\<open>1 hour\<close>, 45 minutes \<^verbatim>\<open>45 minutes\<close>, 61 minutes \<^verbatim>\<open>1 hour 1 minute\<close> and
  1 minute \<^verbatim>\<open>1 minute\<close>.
\<close>

theorem formatEventDuration_renders:
  assumes "Date_parse startTime = Some s" and "Date_parse endTime = Some e"
    and "\<bar>s\<bar> \<le> 8640000000000000" and "\<bar>e\<bar> \<le> 8640000000000000"
  shows "(let durationMs = to_double (e - s);
              totalMinutes = \<lfloor>real_of_int durationMs / 60000\<rfloor>;
              hours = \<lfloor>real_of_int totalMinutes / 60\<rfloor>;
              minutes = js_rem totalMinutes 60;
              h = number_toString hours @ (if hours = 1 then '' hour'' else '' hours'');
              m = number_toString minutes @ (if minutes = 1 then '' minute'' else '' minutes'')
          in formatEventDuration Date_parse startTime endTime =
               (if hours = 0 then m else if minutes = 0 then h else h @ '' '' @ m)
             \<and> (0 \<le> totalMinutes \<longrightarrow>
                  totalMinutes = 60 * hours + minutes \<and> 0 \<le> minutes \<and> minutes < 60))
         \<and> (\<bar>e - s\<bar> < 2 ^ 53 \<longrightarrow> to_double (e - s) = e - s)
         \<and> (e - s = 90 * 60000 \<longrightarrow>
              formatEventDuration Date_parse startTime endTime = ''1 hour 30 minutes'')
         \<and> (e - s = 60 * 60000 \<longrightarrow>
              formatEventDuration Date_parse startTime endTime = ''1 hour'')
         \<and> (e - s = 45 * 60000 \<longrightarrow>
              formatEventDuration Date_parse startTime endTime = ''45 minutes'')
         \<and> (e - s = 61 * 60000 \<longrightarrow>
              formatEventDuration Date_parse startTime endTime = ''1 hour 1 minute'')
         \<and> (e - s = 1 * 60000 \<longrightarrow>
              formatEventDuration Date_parse startTime endTime = ''1 minute'')"
proof -
  define D where "D = to_double (e - s)"
  note ps = assms(1,2)
  have t: "\<lfloor>real_of_int D / 60000\<rfloor> = D div 60000"
    using floor_divide_of_int_eq[of D 60000, where ?'a = real] by simp
  have h: "\<lfloor>real_of_int (D div 60000) / 60\<rfloor> = D div 60000 div 60"
    using floor_divide_of_int_eq[of "D div 60000" 60, where ?'a = real] by simp
  have split: "0 \<le> D div 60000 \<longrightarrow>
      D div 60000 = 60 * (D div 60000 div 60) + js_rem (D div 60000) 60
      \<and> 0 \<le> js_rem (D div 60000) 60 \<and> js_rem (D div 60000) 60 < 60"
    by (simp add: js_rem_nonneg)
  have general: "formatEventDuration Date_parse startTime endTime =
     (let hours = D div 60000 div 60; minutes = js_rem (D div 60000) 60;
          h = number_toString hours @ (if hours = 1 then '' hour'' else '' hours'');
          m = number_toString minutes @ (if minutes = 1 then '' minute'' else '' minutes'')
      in if hours = 0 then m else if minutes = 0 then h else h @ '' '' @ m)"
    by (simp add: formatEventDuration_valid[OF ps] Let_def D_def)
  have first: "(let durationMs = to_double (e - s);
              totalMinutes = \<lfloor>real_of_int durationMs / 60000\<rfloor>;
              hours = \<lfloor>real_of_int totalMinutes / 60\<rfloor>;
              minutes = js_rem totalMinutes 60;
              h = number_toString hours @ (if hours = 1 then '' hour'' else '' hours'');
              m = number_toString minutes @ (if minutes = 1 then '' minute'' else '' minutes'')
          in formatEventDuration Date_parse startTime endTime =
               (if hours = 0 then m else if minutes = 0 then h else h @ '' '' @ m)
             \<and> (0 \<le> totalMinutes \<longrightarrow>
                  totalMinutes = 60 * hours + minutes \<and> 0 \<le> minutes \<and> minutes < 60))"
    unfolding Let_def D_def[symmetric] t h
    using general split by (simp add: Let_def)
  show ?thesis
    using first to_double_exact[of "e - s"] formatEventDuration_minutes[OF ps]
    by (intro conjI impI)
qed

theorem formatEventDuration_renders_witness:
  "morning ''2030-01-01T10:00'' = Some 1893492000000
   \<and> morning ''2030-01-01T11:30'' = Some 1893497400000
   \<and> \<bar>1893492000000 :: int\<bar> \<le> 8640000000000000
   \<and> \<bar>1893497400000 :: int\<bar> \<le> 8640000000000000
   \<and> formatEventDuration morning ''2030-01-01T10:00'' ''2030-01-01T11:30'' = ''1 hour 30 minutes''
   \<and> formatEventDuration morning ''2030-01-01T10:00'' ''2030-01-01T11:00'' = ''1 hour''
   \<and> formatEventDuration morning ''2030-01-01T10:00'' ''2030-01-01T10:45'' = ''45 minutes''
   \<and> formatEventDuration morning ''2030-01-01T10:00'' ''2030-01-01T11:01'' = ''1 hour 1 minute''
   \<and> formatEventDuration morning ''2030-01-01T10:00'' ''2030-01-01T10:01'' = ''1 minute''
   \<and> extremes ''-271821-04-20T00:00:00.001Z'' = Some (- 8639999999999999)
   \<and> extremes ''+275760-09-13T00:00:00.000Z'' = Some 8640000000000000
   \<and> to_double (8640000000000000 - (- 8639999999999999)) = 17280000000000000
   \<and> formatEventDuration extremes ''-271821-04-20T00:00:00.001Z''
         ''+275760-09-13T00:00:00.000Z'' = ''4800000000 hours''"
proof -
  have p: "morning ''2030-01-01T10:00'' = Some 1893492000000"
    "morning ''2030-01-01T10:01'' = Some 1893492060000"
    "morning ''2030-01-01T10:45'' = Some 1893494700000"
    "morning ''2030-01-01T11:00'' = Some 1893495600000"
    "morning ''2030-01-01T11:01'' = Some 1893495660000"
    "morning ''2030-01-01T11:30'' = Some 1893497400000"
    by (simp_all add: morning_def)
  have x: "extremes ''-271821-04-20T00:00:00.001Z'' = Some (- 8639999999999999)"
    "extremes ''+275760-09-13T00:00:00.000Z'' = Some 8640000000000000"
    by (simp_all add: extremes_def)
  have r: "to_double (8640000000000000 - (- 8639999999999999)) = 17280000000000000"
    by (simp add: double_eval)
  have far: "formatEventDuration extremes ''-271821-04-20T00:00:00.001Z''
         ''+275760-09-13T00:00:00.000Z'' = ''4800000000 hours''"
    using formatEventDuration_renders[where Date_parse=extremes, OF x] r
    by (simp add: number_eval)
  have near: "formatEventDuration morning ''2030-01-01T10:00'' ''2030-01-01T11:30''
                = ''1 hour 30 minutes''"
    "formatEventDuration morning ''2030-01-01T10:00'' ''2030-01-01T11:00'' = ''1 hour''"
    "formatEventDuration morning ''2030-01-01T10:00'' ''2030-01-01T10:45'' = ''45 minutes''"
    "formatEventDuration morning ''2030-01-01T10:00'' ''2030-01-01T11:01'' = ''1 hour 1 minute''"
    "formatEventDuration morning ''2030-01-01T10:00'' ''2030-01-01T10:01'' = ''1 minute''"
    using formatEventDuration_renders[where Date_parse=morning, OF p(1) p(6)]
      formatEventDuration_renders[where Date_parse=morning, OF p(1) p(4)]
      formatEventDuration_renders[where Date_parse=morning, OF p(1) p(3)]
      formatEventDuration_renders[where Date_parse=morning, OF p(1) p(5)]
      formatEventDuration_renders[where Date_parse=morning, OF p(1) p(2)]
    by simp_all
  show ?thesis
    using p(1) p(6) near x r far by simp
qed

section \<open>Properties of handleSubmit\<close>

lemma handleSubmit_invalid:
  assumes "current_user = Some u" "validate_form pf now formData = Inl msg"
  shows "handleSubmit pf sb current_user now formData customFields w rs = Some (rejected msg w rs)"
  by (simp add: handleSubmit_def rejected_def assms)

lemma handleSubmit_valid:
  assumes "current_user = Some u" "validate_form pf now formData = Inr (st, en, rd)"
    and "select_user_name sb w (user_id u) = (profile, w1)"
    and "generateUniqueShortCode (select_event_id sb) (Some (fd_name formData)) w1 rs
           = Some (shortCode, lookups, w2, rs2)"
    and "ev = eventData pf formData customFields u (resp_data profile) st en rd
                (tags_of (fd_tags formData)) shortCode"
    and "insert_event sb w2 ev = (ins, w3)"
  shows "\<exists>ts p. handleSubmit pf sb current_user now formData customFields w rs =
           Some \<lparr>out_toasts = ts, out_push = p,
                 out_calls = SelectUserName (user_id u) # map SelectEventId lookups @ [InsertEvent ev],
                 out_world = w3, out_rng = rs2\<rparr>"
  using assms(1-4,6) unfolding handleSubmit_def assms(5)
  by (auto simp: Let_def split: option.splits)

lemma handleSubmit_returns:
  assumes "valid_random rs"
  shows "\<exists>res. handleSubmit pf sb current_user now formData customFields w rs = Some res"
proof (cases current_user)
  case None
  then show ?thesis by (simp add: handleSubmit_def)
next
  case (Some u)
  show ?thesis
  proof (cases "validate_form pf now formData")
    case (Inl msg)
    show ?thesis
      using handleSubmit_invalid[OF Some Inl, of sb customFields w rs] by simp
  next
    case (Inr t)
    obtain st en rd where t: "t = (st, en, rd)" by (cases t)
    obtain profile w1 where p: "select_user_name sb w (user_id u) = (profile, w1)"
      by (cases "select_user_name sb w (user_id u)")
    obtain shortCode lookups w2 rs2 where
      g: "generateUniqueShortCode (select_event_id sb) (Some (fd_name formData)) w1 rs
            = Some (shortCode, lookups, w2, rs2)"
      using attempt_loop_returns[OF assms, of "select_event_id sb" "Some (fd_name formData)" 0 "[]" w1]
      unfolding generateUniqueShortCode_def by (metis prod_cases4)
    obtain ins w3 where
      i: "insert_event sb w2 (eventData pf formData customFields u (resp_data profile) st en rd
                (tags_of (fd_tags formData)) shortCode) = (ins, w3)"
      by (cases "insert_event sb w2 (eventData pf formData customFields u (resp_data profile) st en rd
                (tags_of (fd_tags formData)) shortCode)")
    show ?thesis
      using handleSubmit_valid[OF Some Inr[unfolded t] p g refl i] by blast
  qed
qed

lemma handleSubmit_insert:
  assumes "handleSubmit pf sb current_user now formData customFields w rs = Some res"
    and "InsertEvent ev \<in> set (out_calls res)"
  shows "\<exists>u profile st en rd shortCode.
           current_user = Some u \<and> validate_form pf now formData = Inr (st, en, rd)
           \<and> ev = eventData pf formData customFields u profile st en rd
                    (tags_of (fd_tags formData)) shortCode"
proof (cases current_user)
  case None
  then show ?thesis using assms by (auto simp: handleSubmit_def)
next
  case (Some u)
  show ?thesis
  proof (cases "validate_form pf now formData")
    case (Inl msg)
    then show ?thesis using assms handleSubmit_invalid[OF Some Inl, of sb customFields w rs]
      by (auto simp: rejected_def)
  next
    case (Inr t)
    obtain st en rd where t: "t = (st, en, rd)" by (cases t)
    obtain profile w1 where p: "select_user_name sb w (user_id u) = (profile, w1)"
      by (cases "select_user_name sb w (user_id u)")
    from assms(1) obtain shortCode lookups w2 rs2 where
      g: "generateUniqueShortCode (select_event_id sb) (Some (fd_name formData)) w1 rs
            = Some (shortCode, lookups, w2, rs2)"
      by (auto simp: handleSubmit_def Some Inr t p Let_def split: option.splits)
    let ?ev = "eventData pf formData customFields u (resp_data profile) st en rd
                (tags_of (fd_tags formData)) shortCode"
    obtain ins w3 where i: "insert_event sb w2 ?ev = (ins, w3)"
      by (cases "insert_event sb w2 ?ev")
    obtain ts p' where "handleSubmit pf sb current_user now formData customFields w rs =
           Some \<lparr>out_toasts = ts, out_push = p',
                 out_calls = SelectUserName (user_id u) # map SelectEventId lookups @ [InsertEvent ?ev],
                 out_world = w3, out_rng = rs2\<rparr>"
      using handleSubmit_valid[OF Some Inr[unfolded t] p g refl i] by blast
    then have "out_calls res = SelectUserName (user_id u) # map SelectEventId lookups @ [InsertEvent ?ev]"
      using assms(1) by auto
    then have "ev = ?ev" using assms(2) by auto
    then show ?thesis using Some Inr t by blast
  qed
qed

text \<open>A submission that goes through, at the concrete inputs.\<close>

lemma gen_oil_summit:
  "generateShortCode (Some ''Oil Summit'') zeros = Some (''oil2222'', zeros)"
  by (simp add: gen_eval)

lemma unique_oil_summit:
  "generateUniqueShortCode free_on_third (Some ''Oil Summit'') (Suc 0) zeros =
     Some (''oil2222'', [''oil2222'', ''oil2222''], 3, zeros)"
  by (simp add: generateUniqueShortCode_def attempt_loop.simps gen_oil_summit maxAttempts_def
      free_on_third_def answers_eval)

lemmas submit_eval = handleSubmit_def validate_form_def check_deadline_def test_platform_def
  test_store_def ada_def early_def oil_summit_def morning_def morning_iso_def fifty_def
  eventData_def or_null_def truthy_def rejected_def

lemma tags_oil_summit: "tags_of '' web3, rust,,'' = [''web3'', ''rust'']"
  by (simp add: tags_of_def trim_def is_white_space_def)

lemma run_oil_summit:
  "handleSubmit test_platform test_store (Some ada) early oil_summit cf 0 zeros =
     Some (oil_run (if cf = [] then None else Some cf))"
  by (simp add: submit_eval unique_oil_summit tags_oil_summit oil_run_def oil_event_def)

lemma run_bare_summit:
  "handleSubmit test_platform test_store (Some ada) early bare_summit [] 0 zeros
     = Some bare_run"
  by (simp add: submit_eval unique_oil_summit bare_summit_def bare_run_def bare_event_def
      oil_run_def oil_event_def tags_of_def trim_def)

text \<open>
  Claim C5: with a user signed in, every failure of the validation ends
  \<open>handleSubmit\<close> on the message of that failure before any query is sent: no profile
  lookup, no lookup of a short code, no insert, and the outside world is as it was. A
  submission whose end parses to the same time as its start ends so, and so does one whose
  registration deadline is at or after the start; when the checks before them pass, the
  messages are the ones of these two checks. (The page renders the form only after
  \<^verbatim>\<open>setUser(user)\<close>, so a submission always has a user; without one,
  \<open>handleSubmit\<close> returns at once, with no message and no query.)
\<close>

theorem handleSubmit_rejects_before_calls:
  assumes "current_user = Some u"
  shows "(\<forall>msg. validate_form pf now formData = Inl msg \<longrightarrow>
            handleSubmit pf sb current_user now formData customFields w rs
              = Some (rejected msg w rs))
       \<and> (pf_Date_parse pf (fd_end_time formData) = pf_Date_parse pf (fd_start_time formData) \<longrightarrow>
            (\<exists>msg. handleSubmit pf sb current_user now formData customFields w rs
                     = Some (rejected msg w rs)))
       \<and> (\<forall>st rd. pf_Date_parse pf (fd_start_time formData) = Some st
                \<and> fd_registration_deadline formData \<noteq> []
                \<and> pf_Date_parse pf (fd_registration_deadline formData) = Some rd \<and> st \<le> rd \<longrightarrow>
            (\<exists>msg. handleSubmit pf sb current_user now formData customFields w rs
                     = Some (rejected msg w rs)))
       \<and> (\<forall>st. fd_name formData \<noteq> [] \<and> fd_description formData \<noteq> []
              \<and> fd_start_time formData \<noteq> [] \<and> fd_end_time formData \<noteq> []
              \<and> pf_Date_parse pf (fd_start_time formData) = Some st
              \<and> pf_Date_parse pf (fd_end_time formData) = Some st \<and> now \<le> st \<longrightarrow>
            handleSubmit pf sb current_user now formData customFields w rs
              = Some (rejected ''End time must be after start time'' w rs))
       \<and> (\<forall>st en rd. fd_name formData \<noteq> [] \<and> fd_description formData \<noteq> []
              \<and> fd_start_time formData \<noteq> [] \<and> fd_end_time formData \<noteq> []
              \<and> pf_Date_parse pf (fd_start_time formData) = Some st
              \<and> pf_Date_parse pf (fd_end_time formData) = Some en \<and> now \<le> st \<and> st < en
              \<and> fd_registration_deadline formData \<noteq> []
              \<and> pf_Date_parse pf (fd_registration_deadline formData) = Some rd \<and> st \<le> rd \<longrightarrow>
            handleSubmit pf sb current_user now formData customFields w rs
              = Some (rejected ''Registration deadline must be before start time'' w rs))"
proof -
  note inv = handleSubmit_invalid[OF assms, of pf now formData _ sb customFields w rs]
  have same: "\<exists>msg. validate_form pf now formData = Inl msg"
    if "pf_Date_parse pf (fd_end_time formData) = pf_Date_parse pf (fd_start_time formData)"
    using that by (auto simp: validate_form_def Let_def)
  have late: "\<exists>msg. validate_form pf now formData = Inl msg"
    if "pf_Date_parse pf (fd_start_time formData) = Some st"
      "fd_registration_deadline formData \<noteq> []"
      "pf_Date_parse pf (fd_registration_deadline formData) = Some rd" "st \<le> rd"
    for st rd
    using that by (auto simp: validate_form_def check_deadline_def Let_def)
  have same_msg: "validate_form pf now formData = Inl ''End time must be after start time''"
    if "fd_name formData \<noteq> []" "fd_description formData \<noteq> []"
       "fd_start_time formData \<noteq> []" "fd_end_time formData \<noteq> []"
       "pf_Date_parse pf (fd_start_time formData) = Some st"
       "pf_Date_parse pf (fd_end_time formData) = Some st" "now \<le> st"
    for st
    using that by (simp add: validate_form_def Let_def)
  have late_msg: "validate_form pf now formData
                    = Inl ''Registration deadline must be before start time''"
    if "fd_name formData \<noteq> []" "fd_description formData \<noteq> []"
       "fd_start_time formData \<noteq> []" "fd_end_time formData \<noteq> []"
       "pf_Date_parse pf (fd_start_time formData) = Some st"
       "pf_Date_parse pf (fd_end_time formData) = Some en" "now \<le> st" "st < en"
       "fd_registration_deadline formData \<noteq> []"
       "pf_Date_parse pf (fd_registration_deadline formData) = Some rd" "st \<le> rd"
    for st en rd
    using that by (simp add: validate_form_def check_deadline_def Let_def)
  show ?thesis
    using inv same late same_msg late_msg by blast
qed

theorem handleSubmit_rejects_before_calls_witness:
  "validate_form test_platform early (oil_summit\<lparr>fd_end_time := ''2030-01-01T10:00''\<rparr>)
     = Inl ''End time must be after start time''
   \<and> handleSubmit test_platform test_store (Some ada) early
         (oil_summit\<lparr>fd_end_time := ''2030-01-01T10:00''\<rparr>) [] 0 zeros
       = Some (rejected ''End time must be after start time'' 0 zeros)
   \<and> handleSubmit test_platform test_store (Some ada) early
         (oil_summit\<lparr>fd_registration_deadline := ''2030-01-01T11:00''\<rparr>) [] 0 zeros
       = Some (rejected ''Registration deadline must be before start time'' 0 zeros)
   \<and> out_calls (rejected ''End time must be after start time'' (0::nat) zeros) = []"
proof -
  let ?same = "oil_summit\<lparr>fd_end_time := ''2030-01-01T10:00''\<rparr>"
  let ?late = "oil_summit\<lparr>fd_registration_deadline := ''2030-01-01T11:00''\<rparr>"
  note all = handleSubmit_rejects_before_calls[where current_user="Some ada" and u=ada
      and pf=test_platform and sb=test_store and now=early and customFields="[]" and w="0::nat"
      and rs="zeros", OF refl]
  have v: "validate_form test_platform early ?same = Inl ''End time must be after start time''"
    by (simp add: submit_eval)
  have same: "handleSubmit test_platform test_store (Some ada) early ?same [] 0 zeros
       = Some (rejected ''End time must be after start time'' 0 zeros)"
    using all[of ?same] v by blast
  have "fd_name ?late \<noteq> [] \<and> fd_description ?late \<noteq> []
      \<and> fd_start_time ?late \<noteq> [] \<and> fd_end_time ?late \<noteq> []
      \<and> pf_Date_parse test_platform (fd_start_time ?late) = Some 1893492000000
      \<and> pf_Date_parse test_platform (fd_end_time ?late) = Some 1893497400000
      \<and> early \<le> 1893492000000 \<and> (1893492000000::int) < 1893497400000
      \<and> fd_registration_deadline ?late \<noteq> []
      \<and> pf_Date_parse test_platform (fd_registration_deadline ?late) = Some 1893495600000
      \<and> (1893492000000::int) \<le> 1893495600000"
    by (simp add: submit_eval)
  then have late: "handleSubmit test_platform test_store (Some ada) early ?late [] 0 zeros
       = Some (rejected ''Registration deadline must be before start time'' 0 zeros)"
    using all[of ?late] by blast
  show ?thesis
    using v same late by (simp add: rejected_def)
qed

section \<open>The record inserted\<close>

lemma split_on_not_Nil: "split_on sep s \<noteq> []"
  by (induction s) (auto split: list.splits)

lemma split_on_pieces: "p \<in> set (split_on sep s) \<Longrightarrow> sep \<notin> set p"
proof (induction s arbitrary: p)
  case Nil
  then show ?case by simp
next
  case (Cons c cs)
  show ?case
  proof (cases "c = sep")
    case True
    then show ?thesis using Cons by auto
  next
    case False
    obtain q qs where q: "split_on sep cs = q # qs"
      using split_on_not_Nil[of sep cs] by (cases "split_on sep cs") auto
    then have "p = c # q \<or> p \<in> set qs" using Cons.prems False by simp
    then show ?thesis using Cons.IH q False by auto
  qed
qed

lemma split_on_join: "concat (map ((#) sep) (split_on sep s)) = sep # s"
proof (induction s)
  case Nil
  show ?case by simp
next
  case (Cons c cs)
  obtain q qs where q: "split_on sep cs = q # qs"
    using split_on_not_Nil[of sep cs] by (cases "split_on sep cs") auto
  show ?case using Cons q by (cases "c = sep") simp_all
qed

lemma set_trim: "set (trim s) \<subseteq> set s"
proof -
  have "set (trim s) \<subseteq> set (dropWhile is_white_space s)"
    using set_dropWhileD[of _ is_white_space "rev (dropWhile is_white_space s)"]
    by (auto simp: trim_def)
  then show ?thesis using set_dropWhileD[of _ is_white_space s] by blast
qed

lemma trim_ends:
  assumes "trim s \<noteq> []"
  shows "\<not> is_white_space (hd (trim s))" "\<not> is_white_space (last (trim s))"
proof -
  let ?y = "dropWhile is_white_space s"
  let ?z = "dropWhile is_white_space (rev ?y)"
  have t: "trim s = rev ?z" by (simp add: trim_def)
  have z: "?z \<noteq> []" using assms t by simp
  then show "\<not> is_white_space (last (trim s))"
    using hd_dropWhile[of is_white_space "rev ?y"] by (simp add: t last_rev)
  have "rev ?y = takeWhile is_white_space (rev ?y) @ ?z" by simp
  then have "?y = rev ?z @ rev (takeWhile is_white_space (rev ?y))"
    by (metis rev_append rev_rev_ident)
  then have "hd (rev ?z) = hd ?y" using z by (metis hd_append2 rev_is_Nil_conv)
  moreover have "?y \<noteq> []"
  proof
    assume "?y = []"
    then have "?z = []" by (simp only: rev.simps dropWhile.simps)
    then show False using z by simp
  qed
  ultimately show "\<not> is_white_space (hd (trim s))"
    using hd_dropWhile[of is_white_space s] by (simp add: t)
qed

lemma tags_of_entries:
  assumes "t \<in> set (tags_of tags)"
  shows "t \<noteq> [] \<and> CHR '','' \<notin> set t \<and> \<not> is_white_space (hd t) \<and> \<not> is_white_space (last t)"
proof -
  from assms obtain p where p: "p \<in> set (split_on CHR '','' tags)" "t = trim p" "t \<noteq> []"
    by (auto simp: tags_of_def)
  have "CHR '','' \<notin> set t" using split_on_pieces[OF p(1)] set_trim[of p] p(2) by auto
  then show ?thesis using trim_ends[of p] p by simp
qed

text \<open>
  Claim C6: in the record that \<open>handleSubmit\<close> inserts, the tags are the pieces of the
  tags string between its commas, each trimmed, the empty ones left out, in their order;
  no tag stored is empty, holds a comma or starts or ends with white space. When no tag is
  left, as for the empty tags string, the value stored is \<^verbatim>\<open>null\<close>, never the empty
  list.
\<close>

theorem handleSubmit_tags:
  assumes "handleSubmit pf sb current_user now formData customFields w rs = Some res"
    and "InsertEvent ev \<in> set (out_calls res)"
  shows "ev_tags ev =
           (let entries = filter (\<lambda>t. t \<noteq> []) (map trim (split_on CHR '','' (fd_tags formData)))
            in if entries = [] then None else Some entries)
       \<and> ev_tags ev \<noteq> Some []
       \<and> (fd_tags formData = [] \<longrightarrow> ev_tags ev = None)
       \<and> (\<forall>tags. ev_tags ev = Some tags \<longrightarrow>
            (\<forall>t \<in> set tags. t \<noteq> [] \<and> CHR '','' \<notin> set t
                \<and> \<not> is_white_space (hd t) \<and> \<not> is_white_space (last t)))"
proof -
  obtain u profile st en rd shortCode where
    ev: "ev = eventData pf formData customFields u profile st en rd
                (tags_of (fd_tags formData)) shortCode"
    using handleSubmit_insert[OF assms] by blast
  have tags: "ev_tags ev =
      (if tags_of (fd_tags formData) = [] then None else Some (tags_of (fd_tags formData)))"
    by (simp add: ev eventData_def)
  have empty: "tags_of [] = []" by (simp add: tags_of_def trim_def)
  have c1: "ev_tags ev =
           (let entries = filter (\<lambda>t. t \<noteq> []) (map trim (split_on CHR '','' (fd_tags formData)))
            in if entries = [] then None else Some entries)"
    by (simp add: tags tags_of_def Let_def)
  have c2: "ev_tags ev \<noteq> Some []"
    by (simp add: tags)
  have c3: "fd_tags formData = [] \<longrightarrow> ev_tags ev = None"
    by (simp add: tags empty)
  have c4: "\<forall>tags. ev_tags ev = Some tags \<longrightarrow>
            (\<forall>t \<in> set tags. t \<noteq> [] \<and> CHR '','' \<notin> set t
                \<and> \<not> is_white_space (hd t) \<and> \<not> is_white_space (last t))"
    using tags_of_entries[of _ "fd_tags formData"] by (auto simp: tags split: if_splits)
  show ?thesis
    using c1 c2 c3 c4 by (intro conjI)
qed

theorem handleSubmit_tags_witness:
  "handleSubmit test_platform test_store (Some ada) early oil_summit [] 0 zeros
     = Some (oil_run None)
   \<and> InsertEvent (oil_event None) \<in> set (out_calls (oil_run None))
   \<and> fd_tags oil_summit = '' web3, rust,,''
   \<and> ev_tags (oil_event None) = Some [''web3'', ''rust'']
   \<and> filter (\<lambda>t. t \<noteq> []) (map trim (split_on CHR '','' (fd_tags oil_summit)))
       = [''web3'', ''rust'']
   \<and> handleSubmit test_platform test_store (Some ada) early bare_summit [] 0 zeros
       = Some bare_run
   \<and> InsertEvent bare_event \<in> set (out_calls bare_run)
   \<and> fd_tags bare_summit = []
   \<and> ev_tags bare_event = None"
proof -
  have b: "fd_tags bare_summit = []"
    by (simp add: bare_summit_def)
  have bi: "InsertEvent bare_event \<in> set (out_calls bare_run)"
    by (simp add: bare_run_def)
  have bare: "ev_tags bare_event = None"
    using handleSubmit_tags[OF run_bare_summit bi] b by blast
  have r: "handleSubmit test_platform test_store (Some ada) early oil_summit [] 0 zeros
     = Some (oil_run None)"
    using run_oil_summit[of "[]"] by simp
  have i: "InsertEvent (oil_event None) \<in> set (out_calls (oil_run None))"
    by (simp add: oil_run_def)
  have t: "fd_tags oil_summit = '' web3, rust,,''"
    by (simp add: oil_summit_def)
  have e: "filter (\<lambda>t. t \<noteq> []) (map trim (split_on CHR '','' '' web3, rust,,''))
       = [''web3'', ''rust'']"
    by (simp add: trim_def is_white_space_def)
  have "ev_tags (oil_event None) = Some [''web3'', ''rust'']"
    using handleSubmit_tags[OF r i] unfolding t e by (simp add: Let_def)
  then show ?thesis
    using r i t e run_bare_summit bi b bare by simp
qed

text \<open>
  Claim C9: in the record that \<open>handleSubmit\<close> inserts, each of location, website URL,
  Discord URL, Twitter URL, requirements and banner image is \<^verbatim>\<open>null\<close> when its field
  of the form is the empty string and the string of the field otherwise, so never the
  empty string; the participant limit is \<^verbatim>\<open>null\<close> when its field is the empty string
  and \<^verbatim>\<open>parseInt\<close> of the field otherwise.
\<close>

theorem handleSubmit_optional_fields:
  assumes "handleSubmit pf sb current_user now formData customFields w rs = Some res"
    and "InsertEvent ev \<in> set (out_calls res)"
  shows "ev_location ev = (if fd_location formData = [] then None else Some (fd_location formData))
       \<and> ev_website_url ev
           = (if fd_website_url formData = [] then None else Some (fd_website_url formData))
       \<and> ev_discord_url ev
           = (if fd_discord_url formData = [] then None else Some (fd_discord_url formData))
       \<and> ev_twitter_url ev
           = (if fd_twitter_url formData = [] then None else Some (fd_twitter_url formData))
       \<and> ev_requirements ev
           = (if fd_requirements formData = [] then None else Some (fd_requirements formData))
       \<and> ev_banner_image_url ev
           = (if fd_banner_image_url formData = [] then None
              else Some (fd_banner_image_url formData))
       \<and> ev_location ev \<noteq> Some [] \<and> ev_website_url ev \<noteq> Some []
       \<and> ev_discord_url ev \<noteq> Some [] \<and> ev_twitter_url ev \<noteq> Some []
       \<and> ev_requirements ev \<noteq> Some [] \<and> ev_banner_image_url ev \<noteq> Some []
       \<and> ev_participant_limit ev
           = (if fd_participant_limit formData = [] then None
              else Some (pf_parseInt pf (fd_participant_limit formData)))"
proof -
  obtain u profile st en rd shortCode where
    ev: "ev = eventData pf formData customFields u profile st en rd
                (tags_of (fd_tags formData)) shortCode"
    using handleSubmit_insert[OF assms] by blast
  show ?thesis
    by (simp add: ev eventData_def or_null_def)
qed

theorem handleSubmit_optional_fields_witness:
  "handleSubmit test_platform test_store (Some ada) early oil_summit [] 0 zeros
     = Some (oil_run None)
   \<and> InsertEvent (oil_event None) \<in> set (out_calls (oil_run None))
   \<and> fd_location oil_summit = [] \<and> ev_location (oil_event None) = None
   \<and> fd_twitter_url oil_summit = ''https://x.example/oil''
   \<and> ev_twitter_url (oil_event None) = Some ''https://x.example/oil''
   \<and> fd_participant_limit oil_summit = ''50''
   \<and> pf_parseInt test_platform ''50'' = Number 50
   \<and> ev_participant_limit (oil_event None) = Some (Number 50)
   \<and> handleSubmit test_platform test_store (Some ada) early bare_summit [] 0 zeros
       = Some bare_run
   \<and> InsertEvent bare_event \<in> set (out_calls bare_run)
   \<and> fd_participant_limit bare_summit = []
   \<and> ev_participant_limit bare_event = None"
proof -
  have b: "fd_participant_limit bare_summit = []"
    by (simp add: bare_summit_def)
  have bi: "InsertEvent bare_event \<in> set (out_calls bare_run)"
    by (simp add: bare_run_def)
  have bare: "ev_participant_limit bare_event = None"
    using handleSubmit_optional_fields[OF run_bare_summit bi] b by simp
  have r: "handleSubmit test_platform test_store (Some ada) early oil_summit [] 0 zeros
     = Some (oil_run None)"
    using run_oil_summit[of "[]"] by simp
  have i: "InsertEvent (oil_event None) \<in> set (out_calls (oil_run None))"
    by (simp add: oil_run_def)
  have f: "fd_location oil_summit = []" "fd_twitter_url oil_summit = ''https://x.example/oil''"
    "fd_participant_limit oil_summit = ''50''" "pf_parseInt test_platform ''50'' = Number 50"
    by (simp_all add: oil_summit_def test_platform_def fifty_def)
  show ?thesis
    using handleSubmit_optional_fields[OF r i] r i f run_bare_summit bi b bare by simp
qed

text \<open>
  Claim C10: \<open>handleSubmit\<close> does not validate the custom fields. The record inserted
  carries the list of custom fields as it is whenever the list is not empty (and
  \<^verbatim>\<open>null\<close> when it is empty); whether a submission is rejected, and with which message,
  is the same for every list of custom fields; so a submission of a signed-in user that
  passes the validation of the form reaches the insert with its custom fields, whatever
  they are. The entry that \<open>addCustomField\<close> appends has the empty name, the type
  \<^verbatim>\<open>text\<close>, is not required and has no options.
\<close>

theorem handleSubmit_custom_fields:
  "(\<forall>res ev. handleSubmit pf sb current_user now formData customFields w rs = Some res
        \<and> InsertEvent ev \<in> set (out_calls res) \<longrightarrow>
      ev_custom_fields ev = (if customFields = [] then None else Some customFields))
   \<and> (\<forall>msg other.
        (handleSubmit pf sb current_user now formData customFields w rs
           = Some (rejected msg w rs))
        = (handleSubmit pf sb current_user now formData other w rs = Some (rejected msg w rs)))
   \<and> (\<forall>u t. current_user = Some u \<and> validate_form pf now formData = Inr t \<and> valid_random rs \<longrightarrow>
        (\<exists>res ev. handleSubmit pf sb current_user now formData customFields w rs = Some res
           \<and> last (out_calls res) = InsertEvent ev
           \<and> ev_custom_fields ev = (if customFields = [] then None else Some customFields)))
   \<and> (\<forall>t. addCustomField t customFields
           = customFields @ [\<lparr>cf_id = number_toString t, cf_name = [], cf_type = ''text'',
                               cf_required = False, cf_options = Some []\<rparr>])"
proof -
  have c1: "ev_custom_fields ev = (if customFields = [] then None else Some customFields)"
    if h1: "handleSubmit pf sb current_user now formData customFields w rs = Some res"
      and h2: "InsertEvent ev \<in> set (out_calls res)" for res ev
  proof -
    obtain u profile st en rd shortCode where
      "ev = eventData pf formData customFields u profile st en rd
                (tags_of (fd_tags formData)) shortCode"
      using handleSubmit_insert[OF h1 h2] by blast
    then show ?thesis by (simp add: eventData_def)
  qed
  have rej: "(handleSubmit pf sb current_user now formData cfs w rs = Some (rejected msg w rs))
      = (\<exists>u. current_user = Some u \<and> validate_form pf now formData = Inl msg)" for cfs msg
  proof (cases current_user)
    case None
    then show ?thesis by (simp add: handleSubmit_def rejected_def)
  next
    case (Some u)
    show ?thesis
    proof (cases "validate_form pf now formData")
      case (Inl m)
      then show ?thesis
        using handleSubmit_invalid[OF Some Inl, of sb cfs w rs] Some by (auto simp: rejected_def)
    next
      case (Inr t)
      obtain st en rd where t: "t = (st, en, rd)" by (cases t)
      have "handleSubmit pf sb current_user now formData cfs w rs \<noteq> Some (rejected msg w rs)"
      proof
        assume a: "handleSubmit pf sb current_user now formData cfs w rs = Some (rejected msg w rs)"
        obtain profile w1 where p: "select_user_name sb w (user_id u) = (profile, w1)"
          by (cases "select_user_name sb w (user_id u)")
        from a obtain shortCode lookups w2 rs2 where
          g: "generateUniqueShortCode (select_event_id sb) (Some (fd_name formData)) w1 rs
                = Some (shortCode, lookups, w2, rs2)"
          by (auto simp: handleSubmit_def Some Inr t p Let_def split: option.splits)
        let ?ev = "eventData pf formData cfs u (resp_data profile) st en rd
                    (tags_of (fd_tags formData)) shortCode"
        obtain ins w3 where i: "insert_event sb w2 ?ev = (ins, w3)"
          by (cases "insert_event sb w2 ?ev")
        obtain ts p' where "handleSubmit pf sb current_user now formData cfs w rs =
           Some \<lparr>out_toasts = ts, out_push = p',
                 out_calls = SelectUserName (user_id u) # map SelectEventId lookups @ [InsertEvent ?ev],
                 out_world = w3, out_rng = rs2\<rparr>"
          using handleSubmit_valid[OF Some Inr[unfolded t] p g refl i] by blast
        then show False using a by (simp add: rejected_def)
      qed
      then show ?thesis using Inr by simp
    qed
  qed
  have c2: "(handleSubmit pf sb current_user now formData customFields w rs
           = Some (rejected msg w rs))
        = (handleSubmit pf sb current_user now formData other w rs = Some (rejected msg w rs))"
    for msg other
    by (simp only: rej)
  have c3: "\<exists>res ev. handleSubmit pf sb current_user now formData customFields w rs = Some res
           \<and> last (out_calls res) = InsertEvent ev
           \<and> ev_custom_fields ev = (if customFields = [] then None else Some customFields)"
    if k1: "current_user = Some u" and k2: "validate_form pf now formData = Inr t"
      and k3: "valid_random rs" for u t
  proof -
    obtain res where r: "handleSubmit pf sb current_user now formData customFields w rs = Some res"
      using handleSubmit_returns[OF k3, of pf sb current_user now formData customFields w]
      by blast
    obtain st en rd where t: "t = (st, en, rd)" by (cases t)
    obtain profile w1 where p: "select_user_name sb w (user_id u) = (profile, w1)"
      by (cases "select_user_name sb w (user_id u)")
    from r obtain shortCode lookups w2 rs2 where
      g: "generateUniqueShortCode (select_event_id sb) (Some (fd_name formData)) w1 rs
            = Some (shortCode, lookups, w2, rs2)"
      by (auto simp: handleSubmit_def k1 k2 t p Let_def split: option.splits)
    let ?ev = "eventData pf formData customFields u (resp_data profile) st en rd
                (tags_of (fd_tags formData)) shortCode"
    obtain ins w3 where i: "insert_event sb w2 ?ev = (ins, w3)"
      by (cases "insert_event sb w2 ?ev")
    obtain ts p' where "handleSubmit pf sb current_user now formData customFields w rs =
           Some \<lparr>out_toasts = ts, out_push = p',
                 out_calls = SelectUserName (user_id u) # map SelectEventId lookups @ [InsertEvent ?ev],
                 out_world = w3, out_rng = rs2\<rparr>"
      using handleSubmit_valid[OF k1 k2[unfolded t] p g refl i] by blast
    then have calls: "out_calls res =
        SelectUserName (user_id u) # map SelectEventId lookups @ [InsertEvent ?ev]"
      using r by auto
    have l: "last (out_calls res) = InsertEvent ?ev" by (simp add: calls)
    have m: "InsertEvent ?ev \<in> set (out_calls res)" by (simp add: calls)
    show ?thesis using c1[OF r m] r l by blast
  qed
  have c4: "addCustomField t customFields
           = customFields @ [\<lparr>cf_id = number_toString t, cf_name = [], cf_type = ''text'',
                               cf_required = False, cf_options = Some []\<rparr>]" for t
    by (simp add: addCustomField_def)
  show ?thesis
    using c1 c2 c3 c4 by blast
qed

theorem handleSubmit_custom_fields_witness:
  "addCustomField early []
     = [\<lparr>cf_id = ''1893400000000'', cf_name = [], cf_type = ''text'', cf_required = False,
         cf_options = Some []\<rparr>]
   \<and> valid_random zeros
   \<and> validate_form test_platform early oil_summit = Inr (1893492000000, 1893497400000, None)
   \<and> handleSubmit test_platform test_store (Some ada) early oil_summit (addCustomField early [])
         0 zeros
       = Some (oil_run (Some (addCustomField early [])))
   \<and> InsertEvent (oil_event (Some (addCustomField early [])))
       \<in> set (out_calls (oil_run (Some (addCustomField early []))))
   \<and> ev_custom_fields (oil_event (Some (addCustomField early []))) = Some (addCustomField early [])
   \<and> handleSubmit test_platform test_store (Some ada) early
         (oil_summit\<lparr>fd_end_time := ''2030-01-01T10:00''\<rparr>) (addCustomField early []) 0 zeros
       = Some (rejected ''End time must be after start time'' 0 zeros)"
proof -
  let ?cf = "addCustomField early []"
  let ?same = "oil_summit\<lparr>fd_end_time := ''2030-01-01T10:00''\<rparr>"
  have a: "?cf = [\<lparr>cf_id = ''1893400000000'', cf_name = [], cf_type = ''text'',
                   cf_required = False, cf_options = Some []\<rparr>]"
    by (simp add: addCustomField_def early_def number_eval)
  have ne: "?cf \<noteq> []" by (simp add: addCustomField_def)
  have v: "valid_random zeros" by (rule valid_zeros)
  have ok: "validate_form test_platform early oil_summit
              = Inr (1893492000000, 1893497400000, None)"
    by (simp add: submit_eval)
  have r: "handleSubmit test_platform test_store (Some ada) early oil_summit ?cf 0 zeros
             = Some (oil_run (Some ?cf))"
    using run_oil_summit[of ?cf] ne by simp
  have i: "InsertEvent (oil_event (Some ?cf)) \<in> set (out_calls (oil_run (Some ?cf)))"
    by (simp add: oil_run_def)
  have none: "handleSubmit test_platform test_store (Some ada) early ?same [] 0 zeros
       = Some (rejected ''End time must be after start time'' 0 zeros)"
    by (simp add: submit_eval)
  note run = handleSubmit_custom_fields[where pf=test_platform and sb=test_store
      and current_user="Some ada" and now=early and formData=oil_summit and customFields="?cf"
      and w="0::nat" and rs="zeros"]
  note rejection = handleSubmit_custom_fields[where pf=test_platform and sb=test_store
      and current_user="Some ada" and now=early and formData="?same" and customFields="[]"
      and w="0::nat" and rs="zeros"]
  have stored: "ev_custom_fields (oil_event (Some ?cf)) = Some ?cf"
    using run r i ne by (metis (no_types, lifting))
  have rej: "handleSubmit test_platform test_store (Some ada) early ?same ?cf 0 zeros
       = Some (rejected ''End time must be after start time'' 0 zeros)"
    using rejection none by blast
  show ?thesis
    using a v ok r i stored rej by (intro conjI)
qed

end
